theory Spec2Isabelle
  imports Main "HOL-Library.AList"
begin

chapter \<open>The model\<close>

section \<open>JavaScript strings\<close>

text \<open>
  A JavaScript string is a sequence of UTF-16 code units. The model covers the code units
  below 256 (the Latin-1 range), one \<^typ>\<open>char\<close> per code unit; there
  \<^verbatim>\<open>toLowerCase\<close> acts on each code unit separately and keeps the length.
  \<^verbatim>\<open>String.prototype.trim\<close> removes the WhiteSpace and LineTerminator code
  points at both ends; below 256 these are TAB, LF, VT, FF, CR, SPACE and NBSP.
\<close>

definition isWhiteSpace :: "char \<Rightarrow> bool" where
  "isWhiteSpace c = (of_char c \<in> {9, 10, 11, 12, 13, 32, 160 :: nat})"

definition trim :: "string \<Rightarrow> string" where
  "trim s = rev (dropWhile isWhiteSpace (rev (dropWhile isWhiteSpace s)))"

definition isUpperCase :: "char \<Rightarrow> bool" where
  "isUpperCase c =
     (let n = of_char c :: nat
      in (65 \<le> n \<and> n \<le> 90) \<or> (192 \<le> n \<and> n \<le> 214) \<or> (216 \<le> n \<and> n \<le> 222))"

definition toLowerCaseUnit :: "char \<Rightarrow> char" where
  "toLowerCaseUnit c = (if isUpperCase c then char_of (of_char c + 32 :: nat) else c)"

definition toLowerCase :: "string \<Rightarrow> string" where
  "toLowerCase s = map toLowerCaseUnit s"

text \<open>\<^verbatim>\<open>s.substring(0, n)\<close>: the first \<open>n\<close> code units, the whole string when it is shorter.\<close>

definition substring0 :: "nat \<Rightarrow> string \<Rightarrow> string" where
  "substring0 n s = take n s"

section \<open>JavaScript values\<close>

text \<open>
  Tool-call arguments, spreadsheet cells and the JSON texts the data source returns are
  JSON values. A missing property reads as \<^verbatim>\<open>undefined\<close>, modelled by
  \<^const>\<open>None\<close>. Numbers are restricted to integers: no modelled function computes with
  them. An object is the list of its own enumerable properties in insertion order.
\<close>

datatype json =
    JNull
  | JBool bool
  | JNum int
  | JStr string
  | JArr "json list"
  | JObj "(string \<times> json) list"

type_synonym object = "(string \<times> json) list"

text \<open>Truthiness, as \<^verbatim>\<open>if (x)\<close>, \<^verbatim>\<open>!x\<close> and \<^verbatim>\<open>x || y\<close> test it.\<close>

fun truthy :: "json \<Rightarrow> bool" where
  "truthy JNull = False"
| "truthy (JBool b) = b"
| "truthy (JNum n) = (n \<noteq> 0)"
| "truthy (JStr s) = (s \<noteq> [])"
| "truthy (JArr xs) = True"
| "truthy (JObj kvs) = True"

definition truthy_opt :: "json option \<Rightarrow> bool" where
  "truthy_opt v = (case v of None \<Rightarrow> False | Some x \<Rightarrow> truthy x)"

text \<open>\<^verbatim>\<open>x || d\<close> for a default \<open>d\<close> that is defined.\<close>

definition js_or :: "json option \<Rightarrow> json \<Rightarrow> json" where
  "js_or v d = (case v of None \<Rightarrow> d | Some x \<Rightarrow> if truthy x then x else d)"

text \<open>\<^verbatim>\<open>a === b\<close> between a value read from a row and a filter value: primitives compare
  by value, two distinct arrays or objects are never identical.\<close>

fun strict_equals :: "json option \<Rightarrow> json \<Rightarrow> bool" where
  "strict_equals (Some JNull) JNull = True"
| "strict_equals (Some (JBool a)) (JBool b) = (a = b)"
| "strict_equals (Some (JNum a)) (JNum b) = (a = b)"
| "strict_equals (Some (JStr a)) (JStr b) = (a = b)"
| "strict_equals a b = False"

text \<open>The \<^verbatim>\<open>length\<close> property: of an array, of a string, or an object's own.\<close>

fun js_length :: "json \<Rightarrow> json option" where
  "js_length (JArr xs) = Some (JNum (int (length xs)))"
| "js_length (JStr s) = Some (JNum (int (length s)))"
| "js_length (JObj kvs) = map_of kvs ''length''"
| "js_length v = None"

text \<open>\<^verbatim>\<open>String(x)\<close>, which turns a value into a property key.\<close>

fun show_nat :: "nat \<Rightarrow> string" where
  "show_nat n =
     (if n < 10 then [char_of (48 + n)] else show_nat (n div 10) @ [char_of (48 + n mod 10)])"

definition show_int :: "int \<Rightarrow> string" where
  "show_int i = (if i < 0 then CHR ''-'' # show_nat (nat (- i)) else show_nat (nat i))"

fun join :: "string \<Rightarrow> string list \<Rightarrow> string" where
  "join sep [] = []"
| "join sep [x] = x"
| "join sep (x # y # ys) = x @ sep @ join sep (y # ys)"

fun js_to_string :: "json \<Rightarrow> string" where
  "js_to_string JNull = ''null''"
| "js_to_string (JBool b) = (if b then ''true'' else ''false'')"
| "js_to_string (JNum n) = show_int n"
| "js_to_string (JStr s) = s"
| "js_to_string (JArr xs) =
     join '','' (map (\<lambda>x. if x = JNull then [] else js_to_string x) xs)"
| "js_to_string (JObj kvs) = ''[object Object]''"

definition property_key :: "json option \<Rightarrow> string" where
  "property_key v = (case v of None \<Rightarrow> ''undefined'' | Some x \<Rightarrow> js_to_string x)"

text \<open>
  \<^verbatim>\<open>Object.keys\<close>: the array indices (canonical decimal numerals below \<open>2\<^sup>3\<^sup>2 - 1\<close>) in
  ascending order, then the other keys in insertion order.
\<close>

definition is_digit :: "char \<Rightarrow> bool" where
  "is_digit c = (48 \<le> (of_char c :: nat) \<and> (of_char c :: nat) \<le> 57)"

definition decimal_value :: "string \<Rightarrow> nat" where
  "decimal_value s = foldl (\<lambda>n c. 10 * n + (of_char c - 48)) 0 s"

definition is_array_index :: "string \<Rightarrow> bool" where
  "is_array_index s =
     (s \<noteq> [] \<and> list_all is_digit s \<and> (s = ''0'' \<or> hd s \<noteq> CHR ''0'')
      \<and> decimal_value s < 4294967295)"

definition object_keys :: "(string \<times> 'a) list \<Rightarrow> string list" where
  "object_keys obj =
     sort_key decimal_value (filter is_array_index (map fst obj))
     @ filter (\<lambda>k. \<not> is_array_index k) (map fst obj)"

text \<open>
  Every object of the program is a plain object: it inherits from
  \<^verbatim>\<open>Object.prototype\<close>, which the engine creates with the twelve properties named
  below, none of them enumerable. Eleven are functions; \<^verbatim>\<open>__proto__\<close> is an accessor
  that reads as \<^verbatim>\<open>Object.prototype\<close> itself and, when assigned, changes the prototype
  of the object instead of creating a property. So \<^verbatim>\<open>key in obj\<close> holds for an own
  property and for these names, and \<^verbatim>\<open>obj[key]\<close> reads an own property, else for
  these names a function or the prototype (truthy, and no JSON value), else
  \<^verbatim>\<open>undefined\<close>. Every modelled function is entered with
  \<^verbatim>\<open>Object.prototype\<close> as the engine created it; \<^verbatim>\<open>final_summarizer\<close>, the one
  function that can write to it, is modelled with what it writes.
\<close>

definition objectPrototypeNames :: "string list" where
  "objectPrototypeNames =
     [''constructor'', ''__defineGetter__'', ''__defineSetter__'', ''hasOwnProperty'',
      ''__lookupGetter__'', ''__lookupSetter__'', ''isPrototypeOf'', ''propertyIsEnumerable'',
      ''toString'', ''valueOf'', ''__proto__'', ''toLocaleString'']"

text \<open>\<^verbatim>\<open>key in obj\<close>\<close>

definition js_in :: "string \<Rightarrow> object \<Rightarrow> bool" where
  "js_in key obj = (key \<in> fst ` set obj \<or> key \<in> set objectPrototypeNames)"

section \<open>Messages and workflow state\<close>

text \<open>
  A message carries its text and, when it is an AI message, the list of its tool calls;
  \<^verbatim>\<open>msg.tool_calls?.\<close> reads \<^verbatim>\<open>undefined\<close> on a message without the list.
  The properties read from tool-call arguments have fixed names, none of them a name of
  \<^verbatim>\<open>Object.prototype\<close>, so they are read among the own properties.
\<close>

record tool_call =
  tc_name :: string
  tc_args :: object

record message =
  msg_content :: string
  tool_calls :: "tool_call list option"

text \<open>\<^verbatim>\<open>msg.tool_calls?.some(tool => tool.name === n)\<close>\<close>

definition has_tool :: "string \<Rightarrow> message \<Rightarrow> bool" where
  "has_tool n msg =
     (case tool_calls msg of None \<Rightarrow> False | Some tcs \<Rightarrow> list_ex (\<lambda>tool. tc_name tool = n) tcs)"

text \<open>\<^verbatim>\<open>msg.tool_calls?.[0]\<close>\<close>

definition first_tool :: "message \<Rightarrow> tool_call option" where
  "first_tool msg =
     (case tool_calls msg of None \<Rightarrow> None | Some [] \<Rightarrow> None | Some (tool # rest) \<Rightarrow> Some tool)"

text \<open>\<^verbatim>\<open>msg.tool_calls?.[0]?.name === n\<close>\<close>

definition first_tool_is :: "string \<Rightarrow> message \<Rightarrow> bool" where
  "first_tool_is n msg = (case first_tool msg of None \<Rightarrow> False | Some tool \<Rightarrow> tc_name tool = n)"

text \<open>\<^verbatim>\<open>msg.tool_calls?.[0]?.args\<close>\<close>

definition first_args :: "message \<Rightarrow> object option" where
  "first_args msg = map_option tc_args (first_tool msg)"

text \<open>\<^verbatim>\<open>args?.key\<close> on such arguments.\<close>

definition arg :: "object option \<Rightarrow> string \<Rightarrow> json option" where
  "arg args key = (case args of None \<Rightarrow> None | Some kvs \<Rightarrow> map_of kvs key)"

text \<open>
  The state both workflow graphs declare in \<^verbatim>\<open>stateAnnotation\<close>, with the fields the
  modelled functions read. \<^verbatim>\<open>selected_flow_sheet\<close> belongs to src/lcaKeyAgent.ts only,
  \<^verbatim>\<open>current_demand_index\<close> and \<^verbatim>\<open>has_parallel_demands\<close> to unnamed/part\_002 only.
\<close>

record demand =
  content :: string
  flow_name :: string
  flow_UUID :: string

record state =
  messages :: "message list"
  selected_flow_sheet :: string
  demands :: "demand list"
  current_demand_index :: nat
  has_parallel_demands :: bool

text \<open>A thrown value: an \<^verbatim>\<open>Error\<close> with its message, or anything else.\<close>

datatype exception = Error string | Thrown json

section \<open>The recursive controller (unnamed/part\_001)\<close>

text \<open>
  Line 35: \<^verbatim>\<open>const processedDemands = new Set<string>()\<close>. A JavaScript
  \<^verbatim>\<open>Set\<close> keeps its elements in insertion order, so it is a list here:
  \<^verbatim>\<open>has\<close> is membership, \<^verbatim>\<open>add\<close> of an absent element appends it,
  \<^verbatim>\<open>size\<close> is the length, \<^verbatim>\<open>clear\<close> empties it. The controller state also
  holds the two arrays that the recursion fills and the console, of which the three lines
  written before the first \<^verbatim>\<open>await\<close> are kept.
\<close>

datatype log_line =
    LogProcessing nat string
  | LogMaxDepth nat
  | LogDuplicate nat string

record controller =
  processedDemands :: "string list"
  processSelectors :: "message list"
  workflowRestarters :: "message list"
  console :: "log_line list"

definition MAX_RECURSION_DEPTH :: nat where
  "MAX_RECURSION_DEPTH = 3"

definition CONCURRENCY_LIMIT :: nat where
  "CONCURRENCY_LIMIT = 5"

text \<open>
  Line 65: \<^verbatim>\<open>const demandHash = demand.trim().toLowerCase().substring(0, 100)\<close>,
  the canonical key of a requirement text.
\<close>

definition demandHash :: "string \<Rightarrow> string" where
  "demandHash demand = substring0 100 (toLowerCase (trim demand))"

text \<open>
  Lines 54 to 72 of \<^verbatim>\<open>processDemandsRecursively\<close>: what one call does before its
  first \<^verbatim>\<open>await\<close>. JavaScript runs this stretch to completion before any other call
  gets to run, so it is one step on the shared controller state.
\<close>

datatype admission = DepthExceeded | Duplicate | Accepted

definition admit :: "string \<Rightarrow> nat \<Rightarrow> controller \<Rightarrow> admission \<times> controller" where
  "admit dem depth c =
     (let c1 = c\<lparr>console := console c @ [LogProcessing depth dem]\<rparr>
      in if depth \<ge> MAX_RECURSION_DEPTH
         then (DepthExceeded, c1\<lparr>console := console c1 @ [LogMaxDepth depth]\<rparr>)
         else if demandHash dem \<in> set (processedDemands c1)
         then (Duplicate, c1\<lparr>console := console c1 @ [LogDuplicate depth (substring0 50 dem)]\<rparr>)
         else (Accepted, c1\<lparr>processedDemands := processedDemands c1 @ [demandHash dem]\<rparr>))"

text \<open>
  \<^verbatim>\<open>batch.map(demandObj => processDemandsRecursively(demandObj.content, ..., depth + 1))\<close>
  starts the calls of one batch in order; each runs up to its first \<^verbatim>\<open>await\<close>
  before the next one starts.
\<close>

fun admitBatch :: "demand list \<Rightarrow> nat \<Rightarrow> controller \<Rightarrow> admission list \<times> controller" where
  "admitBatch [] depth c = ([], c)"
| "admitBatch (d # ds) depth c =
     (let (a, c1) = admit (content d) depth c;
          (as, c2) = admitBatch ds depth c1
      in (a # as, c2))"

text \<open>
  What a call returns: \<^verbatim>\<open>{}\<close>, or \<^verbatim>\<open>{error: true, message}\<close> at the depth
  limit and when the graph run throws.
\<close>

datatype failure = MaxDepthReached nat | ProcessingFailed nat exception

datatype outcome = Succeeded | Failed failure

text \<open>
  The rest of an admitted call (lines 74 to 135). \<^verbatim>\<open>lcaKeyGraph.invoke\<close> is the
  parameter \<open>invoke\<close>: it returns the final state of a graph run or throws. The new
  demands are processed in batches of \<^const>\<open>CONCURRENCY_LIMIT\<close>; the calls of a batch are
  all started (\<^const>\<open>admitBatch\<close>), then the admitted ones are resumed in turn, one
  order in which their graph runs can complete. The results of the child calls are
  dropped, as in the source. The test \<open>Suc depth < MAX_RECURSION_DEPTH\<close> in
  \<open>resumeAll\<close> repeats what \<^const>\<open>Accepted\<close> already says of a call at depth
  \<open>Suc depth\<close>; it is what makes the recursion well-founded.
\<close>

function afterInvoke ::
    "(string \<Rightarrow> exception + state) \<Rightarrow> string \<Rightarrow> nat \<Rightarrow> controller \<Rightarrow> outcome \<times> controller"
  and processInBatches ::
    "(string \<Rightarrow> exception + state) \<Rightarrow> demand list \<Rightarrow> nat \<Rightarrow> controller \<Rightarrow> controller"
  and resumeAll ::
    "(string \<Rightarrow> exception + state) \<Rightarrow> (demand \<times> admission) list \<Rightarrow> nat \<Rightarrow> controller \<Rightarrow> controller"
where
  "afterInvoke invoke dem depth c =
     (case invoke dem of
        Inl e \<Rightarrow> (Failed (ProcessingFailed depth e), c)
      | Inr result \<Rightarrow>
          (let c1 = (case find (has_tool ''process_selector'') (messages result) of
                       None \<Rightarrow> c
                     | Some m \<Rightarrow> c\<lparr>processSelectors := processSelectors c @ [m]\<rparr>)
           in case find (has_tool ''workflow_restarter'') (messages result) of
                None \<Rightarrow> (Succeeded, c1)
              | Some m \<Rightarrow>
                  (let c2 = c1\<lparr>workflowRestarters := workflowRestarters c1 @ [m]\<rparr>;
                       newDemands = demands result
                   in if length newDemands > 0
                      then (Succeeded, processInBatches invoke newDemands depth c2)
                      else (Succeeded, c2))))"
| "processInBatches invoke ds depth c =
     (if ds = [] then c
      else (let batch = take CONCURRENCY_LIMIT ds;
                started = admitBatch batch (Suc depth) c
            in processInBatches invoke (drop CONCURRENCY_LIMIT ds) depth
                 (resumeAll invoke (zip batch (fst started)) depth (snd started))))"
| "resumeAll invoke [] depth c = c"
| "resumeAll invoke ((d, a) # rest) depth c =
     resumeAll invoke rest depth
       (if a = Accepted \<and> Suc depth < MAX_RECURSION_DEPTH
        then snd (afterInvoke invoke (content d) (Suc depth) c)
        else c)"
  by pat_completeness auto
termination
  by (relation "inv_image (less_than <*lex*> less_than <*lex*> less_than)
        (\<lambda>x. case x of
           Inl (invoke, dem, depth, c) \<Rightarrow> (MAX_RECURSION_DEPTH - depth, 3::nat, 0::nat)
         | Inr (Inl (invoke, ds, depth, c)) \<Rightarrow> (MAX_RECURSION_DEPTH - depth, 2, length ds)
         | Inr (Inr (invoke, ps, depth, c)) \<Rightarrow> (MAX_RECURSION_DEPTH - depth, 1, length ps))")
     (auto simp: CONCURRENCY_LIMIT_def)

text \<open>The whole call: the synchronous start, then the rest when it was admitted.\<close>

definition processDemandsRecursively ::
    "(string \<Rightarrow> exception + state) \<Rightarrow> string \<Rightarrow> nat \<Rightarrow> controller \<Rightarrow> outcome \<times> controller" where
  "processDemandsRecursively invoke dem depth c =
     (case admit dem depth c of
        (DepthExceeded, c1) \<Rightarrow> (Failed (MaxDepthReached depth), c1)
      | (Duplicate, c1) \<Rightarrow> (Succeeded, c1)
      | (Accepted, c1) \<Rightarrow> afterInvoke invoke dem depth c1)"

text \<open>
  \<^verbatim>\<open>analyzeCompleteLifeCycle\<close> (lines 211 to 257) clears the set and runs the initial
  demand at depth 0: one lifetime of the controller.
\<close>

definition analyzeCompleteLifeCycle ::
    "(string \<Rightarrow> exception + state) \<Rightarrow> string \<Rightarrow> controller \<Rightarrow> outcome \<times> controller" where
  "analyzeCompleteLifeCycle invoke initialDemand c =
     processDemandsRecursively invoke initialDemand 0
       (c\<lparr>processedDemands := [], processSelectors := [], workflowRestarters := []\<rparr>)"

section \<open>The queue workflow (unnamed/part\_002)\<close>

text \<open>
  What a stage returns is a partial state; the graph merges it into the state with the
  reducers of \<^verbatim>\<open>stateAnnotation\<close>: \<^verbatim>\<open>messages\<close> are appended, the other fields
  replaced when the stage returns them.
\<close>

record update =
  upd_messages :: "message list"
  upd_demands :: "demand list option"
  upd_current_demand_index :: "nat option"
  upd_has_parallel_demands :: "bool option"

definition apply_update :: "state \<Rightarrow> update \<Rightarrow> state" where
  "apply_update st u =
     st\<lparr>messages := messages st @ upd_messages u,
        demands := (case upd_demands u of None \<Rightarrow> demands st | Some ds \<Rightarrow> ds),
        current_demand_index :=
          (case upd_current_demand_index u of None \<Rightarrow> current_demand_index st | Some i \<Rightarrow> i),
        has_parallel_demands :=
          (case upd_has_parallel_demands u of None \<Rightarrow> has_parallel_demands st | Some b \<Rightarrow> b)\<rparr>"

text \<open>
  \<^verbatim>\<open>demand_extractor\<close> (lines 81 to 181). The chat model is the parameter \<open>chain\<close>:
  given the query it returns a message or throws. Reading the last message of an empty
  list throws a \<^verbatim>\<open>TypeError\<close>.
\<close>

definition demand_extractor :: "(string \<Rightarrow> exception + message) \<Rightarrow> state \<Rightarrow> exception + update" where
  "demand_extractor chain st =
     (if has_parallel_demands st \<and> length (demands st) > 0
      then (if current_demand_index st < length (demands st)
            then (case chain (content (demands st ! current_demand_index st)) of
                    Inl e \<Rightarrow> Inl e
                  | Inr response \<Rightarrow>
                      Inr \<lparr>upd_messages = [response], upd_demands = None,
                           upd_current_demand_index = Some (current_demand_index st + 1),
                           upd_has_parallel_demands =
                             Some (current_demand_index st + 1 < length (demands st))\<rparr>)
            else Inr \<lparr>upd_messages = [], upd_demands = Some [],
                      upd_current_demand_index = Some 0,
                      upd_has_parallel_demands = Some False\<rparr>)
      else (case messages st of
              [] \<Rightarrow> Inl (Error ''TypeError'')
            | m # ms \<Rightarrow>
                (case chain (msg_content (last (messages st))) of
                   Inl e \<Rightarrow> Inl e
                 | Inr response \<Rightarrow>
                     Inr \<lparr>upd_messages = [response], upd_demands = None,
                          upd_current_demand_index = None,
                          upd_has_parallel_demands = None\<rparr>)))"

text \<open>\<^verbatim>\<open>shouldProcessNextDemand\<close> (lines 184 to 201), the routing after \<^verbatim>\<open>demand_extractor\<close>.\<close>

definition shouldProcessNextDemand :: "state \<Rightarrow> string" where
  "shouldProcessNextDemand st =
     (if has_parallel_demands st \<and> length (demands st) > 0
      then (if current_demand_index st < length (demands st)
            then ''process_next_demand''
            else ''normal_flow'')
      else ''normal_flow'')"

text \<open>
  \<^verbatim>\<open>shouldContinueBoundaryAnalysis\<close> (lines 1296 to 1338), the routing after
  \<^verbatim>\<open>boundary_judger\<close>. \<^verbatim>\<open>messages.find\<close> returns the first match. Nothing
  inside \<^verbatim>\<open>try\<close> can throw: every access is an optional chain.
\<close>

definition shouldContinueBoundaryAnalysis :: "state \<Rightarrow> string" where
  "shouldContinueBoundaryAnalysis st =
     (let iterationCount = length (filter (has_tool ''demand_extractor'') (messages st))
      in if iterationCount > 10 then ''end_workflow''
         else (case find (has_tool ''boundary_judger'') (messages st) of
                 Some judgerOutput \<Rightarrow>
                   (if arg (first_args judgerOutput) ''whether_reach_cradle'' = Some (JStr ''Yes'')
                    then ''end_workflow''
                    else ''continue_analysis'')
               | None \<Rightarrow> ''end_workflow''))"

text \<open>
  \<^verbatim>\<open>shouldContinueFlowJudger\<close> (lines 1390 to 1435), the routing after
  \<^verbatim>\<open>flow_judger\<close>. \<^verbatim>\<open>combinedFlows\<close> is never \<^verbatim>\<open>null\<close> or
  \<^verbatim>\<open>undefined\<close>, so reading its length does not throw.
\<close>

definition shouldContinueFlowJudger :: "state \<Rightarrow> string" where
  "shouldContinueFlowJudger st =
     (let iterationCount = length (filter (has_tool ''flow_judger'') (messages st))
      in if iterationCount > 10 then ''end_workflow''
         else (case find (has_tool ''flow_judger'') (messages st) of
                 Some judgerOutput \<Rightarrow>
                   (let args = first_args judgerOutput;
                        emptyResult = arg args ''empty_result'';
                        combinedFlows = js_or (arg args ''combined_flows'') (JArr [])
                    in if emptyResult = Some (JBool True) \<or> js_length combinedFlows = Some (JNum 0)
                       then ''end_workflow''
                       else ''continue_workflow'')
               | None \<Rightarrow> ''end_workflow''))"

text \<open>Example states: ten, and eleven, extracted demands, and a boundary judgement of "No".\<close>

definition toolMessage :: "string \<Rightarrow> object \<Rightarrow> message" where
  "toolMessage n args = \<lparr>msg_content = [], tool_calls = Some [\<lparr>tc_name = n, tc_args = args\<rparr>]\<rparr>"

definition stateWith :: "message list \<Rightarrow> state" where
  "stateWith ms =
     \<lparr>messages = ms, selected_flow_sheet = [], demands = [],
      current_demand_index = 0, has_parallel_demands = False\<rparr>"

definition notAtCradle :: message where
  "notAtCradle =
     toolMessage ''boundary_judger''
       [(''process_name'', JStr ''bauxite mining''), (''process_UUID'', JStr ''p1''),
        (''whether_reach_cradle'', JStr ''No'')]"

definition tenExtractions :: state where
  "tenExtractions = stateWith (replicate 10 (toolMessage ''demand_extractor'' []) @ [notAtCradle])"

definition elevenExtractions :: state where
  "elevenExtractions = stateWith (replicate 11 (toolMessage ''demand_extractor'' []) @ [notAtCradle])"

text \<open>
  The state at the routing after \<^verbatim>\<open>flow_judger\<close> in a second round: the first round's
  merge held one flow, the merge just made is empty.
\<close>

definition secondRoundEmptyMerge :: state where
  "secondRoundEmptyMerge =
     stateWith
       [toolMessage ''flow_judger''
          [(''combined_flows'',
              JArr [JObj [(''flow_name'', JStr ''bauxite''), (''flow_UUID'', JStr ''f1''),
                          (''industry_relevance'', JStr ''high'')]]),
           (''empty_result'', JBool False)],
        toolMessage ''flow_judger''
          [(''combined_flows'', JArr []), (''empty_result'', JBool True)]]"

text \<open>
  The number that \<^verbatim>\<open>shouldContinueBoundaryAnalysis\<close> calls
  \<^verbatim>\<open>iterationCount\<close>, and a chat model that answers with a
  \<^verbatim>\<open>demand_extractor\<close> tool call, as \<^verbatim>\<open>tool_choice\<close> asks of it.
\<close>

definition extractions :: "state \<Rightarrow> nat" where
  "extractions st = length (filter (has_tool ''demand_extractor'') (messages st))"

definition extractsProcess :: "string \<Rightarrow> exception + message" where
  "extractsProcess query = Inr (toolMessage ''demand_extractor'' [(''Process'', JStr query)])"

text \<open>
  A state in the loop on \<^verbatim>\<open>demand_extractor\<close>: after a first round that ended
  with eleven new demands, ten of them have been extracted, which makes eleven extractions
  in all, and the last demand of the queue is pending.
\<close>

definition elevenPending :: state where
  "elevenPending =
     \<lparr>messages =
        [toolMessage ''demand_extractor'' [], notAtCradle, toolMessage ''workflow_restarter'' []]
        @ replicate 10 (toolMessage ''demand_extractor'' []),
      selected_flow_sheet = [],
      demands = replicate 11 \<lparr>content = ''coal'', flow_name = ''coal'', flow_UUID = ''f3''\<rparr>,
      current_demand_index = 10, has_parallel_demands = True\<rparr>"

section \<open>The data source (unnamed/part\_000)\<close>

text \<open>
  The file system and the spreadsheet library are parameters. \<^verbatim>\<open>fs.existsSync\<close>
  answers for a path; \<^verbatim>\<open>xlsx.readFile\<close> returns a workbook or throws; a workbook has
  its list of sheet names, and \<^verbatim>\<open>xlsx.utils.sheet_to_json(workbook.Sheets[name])\<close>
  returns the rows of a sheet, or throws; a row is a plain object with the cells of the row
  as its own enumerable properties.
\<close>

type_synonym row = object

record workbook =
  SheetNames :: "string list"
  sheet_to_json :: "string \<Rightarrow> exception + row list"

record file_system =
  existsSync :: "string \<Rightarrow> bool"
  readFile :: "string \<Rightarrow> exception + workbook"

text \<open>
  \<^verbatim>\<open>JSON.stringify({ error: msg, data: [] })\<close>. A returned JSON text is modelled by the
  value it denotes. The messages of the source are Chinese; they are given here in English.
\<close>

definition error_result :: "string \<Rightarrow> json" where
  "error_result msg = JObj [(''error'', JStr msg), (''data'', JArr [])]"

text \<open>\<^verbatim>\<open>`${e}`\<close> and \<^verbatim>\<open>s.includes(sub)\<close>\<close>

definition exception_to_string :: "exception \<Rightarrow> string" where
  "exception_to_string e = (case e of Error m \<Rightarrow> ''Error: '' @ m | Thrown v \<Rightarrow> js_to_string v)"

fun js_includes :: "string \<Rightarrow> string \<Rightarrow> bool" where
  "js_includes [] sub = (sub = [])"
| "js_includes (c # s) sub = (take (length sub) (c # s) = sub \<or> js_includes s sub)"

text \<open>\<^verbatim>\<open>Object.entries\<close>\<close>

definition object_entries :: "object \<Rightarrow> (string \<times> json) list" where
  "object_entries obj =
     concat (map (\<lambda>k. case map_of obj k of None \<Rightarrow> [] | Some v \<Rightarrow> [(k, v)]) (object_keys obj))"

text \<open>
  Lines 106 to 112: one filter after the other. When no row remains, or when
  \<^verbatim>\<open>column in data[0]\<close> is false for the first remaining row, the error is
  returned at once (\<^const>\<open>Inl\<close>). In \<^verbatim>\<open>row[column] === value\<close> an inherited
  property is a function or the prototype and equals no filter value.
\<close>

fun applyFilters :: "(string \<times> json) list \<Rightarrow> row list \<Rightarrow> json + row list" where
  "applyFilters [] data = Inr data"
| "applyFilters ((column, v) # rest) data =
     (case data of
        [] \<Rightarrow> Inl (error_result (''The filter column ' '' @ column @ '' ' does not exist.''))
      | row0 # others \<Rightarrow>
          if \<not> js_in column row0
          then Inl (error_result (''The filter column ' '' @ column @ '' ' does not exist.''))
          else applyFilters rest (filter (\<lambda>row. strict_equals (map_of row column) v) data))"

text \<open>
  Lines 145 to 152: \<^verbatim>\<open>newRow[col] = col in row ? row[col] : null\<close> for every column,
  and what \<^verbatim>\<open>JSON.stringify\<close> then writes for \<^verbatim>\<open>newRow\<close>. \<open>projectedValue\<close>
  is the value written under \<open>col\<close>, \<^const>\<open>None\<close> when nothing is written: assigning
  to \<^verbatim>\<open>__proto__\<close> creates no property, and for another name of
  \<^verbatim>\<open>Object.prototype\<close> that the row does not have itself \<^verbatim>\<open>col in row\<close> is
  true, the inherited function is stored, and \<^verbatim>\<open>JSON.stringify\<close> leaves a property
  that holds a function out. \<^verbatim>\<open>JSON.stringify\<close> writes the properties in the order
  of \<^verbatim>\<open>Object.keys\<close>.
\<close>

definition projectedValue :: "string \<Rightarrow> row \<Rightarrow> json option" where
  "projectedValue col row =
     (if col = ''__proto__'' then None
      else case map_of row col of
             Some v \<Rightarrow> Some v
           | None \<Rightarrow> if col \<in> set objectPrototypeNames then None else Some JNull)"

definition projectRow :: "string list \<Rightarrow> row \<Rightarrow> row" where
  "projectRow extractColumns row =
     object_entries
       (foldl (\<lambda>newRow col.
                 case projectedValue col row of
                   None \<Rightarrow> newRow
                 | Some v \<Rightarrow> AList.update col v newRow)
          [] extractColumns)"

text \<open>
  The body of the outer \<^verbatim>\<open>try\<close> of \<^verbatim>\<open>extractSheetToJson\<close> (lines 78 to 160):
  it returns a JSON text or throws what the library threw. The two inner
  \<^verbatim>\<open>try\<close> blocks hold no operation that throws on rows that are objects.
\<close>

definition extractTry ::
    "file_system \<Rightarrow> string \<Rightarrow> string \<Rightarrow> object option \<Rightarrow> string list option \<Rightarrow> exception + json" where
  "extractTry fs filePath sheetName filterConditions extractColumns =
     (if \<not> existsSync fs filePath
      then Inr (error_result ''The file does not exist, check the file path.'')
      else case readFile fs filePath of
        Inl e \<Rightarrow> Inl e
      | Inr wb \<Rightarrow>
          if sheetName \<notin> set (SheetNames wb)
          then Inr (error_result
                 (''The sheet name ' '' @ sheetName @ '' ' does not exist, check the sheet name.''))
          else case sheet_to_json wb sheetName of
            Inl e \<Rightarrow> Inl e
          | Inr data \<Rightarrow>
              (case (case filterConditions of
                       None \<Rightarrow> Inr data
                     | Some fc \<Rightarrow> applyFilters (object_entries fc) data) of
                 Inl err \<Rightarrow> Inr err
               | Inr filtered \<Rightarrow>
                   (case extractColumns of
                      None \<Rightarrow> Inr (JArr (map (\<lambda>row. JObj (object_entries row)) filtered))
                    | Some cols \<Rightarrow>
                        if length filtered = 0
                        then Inr (error_result ''The sheet is empty, no column can be extracted'')
                        else Inr (JArr (map (\<lambda>row. JObj (projectRow cols row)) filtered)))))"

text \<open>\<^verbatim>\<open>extractSheetToJson\<close> (lines 72 to 169): the body, and the outer \<^verbatim>\<open>catch\<close>.\<close>

definition extractSheetToJson ::
    "file_system \<Rightarrow> string \<Rightarrow> string \<Rightarrow> object option \<Rightarrow> string list option \<Rightarrow> json" where
  "extractSheetToJson fs filePath sheetName filterConditions extractColumns =
     (case extractTry fs filePath sheetName filterConditions extractColumns of
        Inr v \<Rightarrow> v
      | Inl e \<Rightarrow>
          (case e of
             Error m \<Rightarrow>
               if js_includes m ''ENOENT''
               then error_result ''The file was not found, check the file path.''
               else error_result (''The Excel file cannot be read. Details: '' @ exception_to_string e)
           | Thrown v \<Rightarrow>
               error_result (''The Excel file cannot be read. Details: '' @ exception_to_string e)))"

text \<open>
  \<^verbatim>\<open>getSheetData\<close> (src/lcaKeyAgent.ts, lines 29 to 42) parses the text that
  \<^verbatim>\<open>extractSheetToJson\<close> returns. The text is the output of \<^verbatim>\<open>JSON.stringify\<close>,
  which \<^verbatim>\<open>JSON.parse\<close> reads back without throwing, so the \<^verbatim>\<open>catch\<close> of
  \<^verbatim>\<open>getSheetData\<close> is not reached. \<open>file_path\<close> is the module's constant.
\<close>

definition getSheetData ::
    "file_system \<Rightarrow> string \<Rightarrow> string \<Rightarrow> object option \<Rightarrow> string list option \<Rightarrow> json" where
  "getSheetData fs file_path sheetName filterConditions extractColumns =
     extractSheetToJson fs file_path sheetName filterConditions extractColumns"

text \<open>Reading a returned value: is it the error object, what are its keys, what is under a key.\<close>

fun is_error_result :: "json \<Rightarrow> bool" where
  "is_error_result (JObj [(k1, JStr msg), (k2, JArr [])]) = (k1 = ''error'' \<and> k2 = ''data'')"
| "is_error_result v = False"

fun json_keys :: "json \<Rightarrow> string list" where
  "json_keys (JObj kvs) = map fst kvs"
| "json_keys v = []"

fun json_get :: "json \<Rightarrow> string \<Rightarrow> json option" where
  "json_get (JObj kvs) k = map_of kvs k"
| "json_get v k = None"

text \<open>A disk with one workbook of one sheet; its second row has no \<^verbatim>\<open>flow_name\<close>.\<close>

definition flowSheet :: "row list" where
  "flowSheet =
     [[(''process_UUID'', JStr ''p1''), (''flow_name'', JStr ''bauxite''),
       (''Input/Output'', JStr ''Input'')],
      [(''process_UUID'', JStr ''p1''), (''flow_UUID'', JStr ''f2''),
       (''Input/Output'', JStr ''Input'')],
      [(''process_UUID'', JStr ''p2''), (''flow_name'', JStr ''coal''), (''flow_UUID'', JStr ''f3''),
       (''Input/Output'', JStr ''Input'')]]"

definition flowBook :: workbook where
  "flowBook =
     \<lparr>SheetNames = [''flow_all''],
      sheet_to_json =
        (\<lambda>name. if name = ''flow_all'' then Inr flowSheet else Inl (Error ''no such sheet''))\<rparr>"

definition oneSheetDisk :: file_system where
  "oneSheetDisk =
     \<lparr>existsSync = (\<lambda>path. path = ''T2C_dataset_Al.xlsx''),
      readFile =
        (\<lambda>path. if path = ''T2C_dataset_Al.xlsx'' then Inr flowBook
                else Inl (Error ''ENOENT: no such file or directory''))\<rparr>"

definition inputsOfP1 :: object where
  "inputsOfP1 = [(''process_UUID'', JStr ''p1''), (''Input/Output'', JStr ''Input'')]"

section \<open>The grading workflow (src/lcaKeyAgent.ts)\<close>

text \<open>
  Every stage that asks the chat model takes it as a parameter \<open>chain\<close>: a function
  from the request to the reply, or to the exception it throws. A stage is then a function
  of the state and of what the model answers.
\<close>

subsection \<open>Consensus on the technical grades\<close>

text \<open>
  \<^verbatim>\<open>summarize_technical_grades\<close> (lines 707 to 795). The messages whose first tool
  call is \<^verbatim>\<open>technical_grader\<close> are grouped in the object \<^verbatim>\<open>processGrades\<close> by
  \<^verbatim>\<open>process_UUID\<close>, the key being \<^verbatim>\<open>String\<close> of whatever the arguments hold there.
  One step of the loop of lines 716 to 725: for a key that is no own property but a name
  of \<^verbatim>\<open>Object.prototype\<close>, \<^verbatim>\<open>processGrades[processUUID]\<close> reads the inherited
  function or prototype, which is truthy and has no \<^verbatim>\<open>push\<close>; the call throws a
  \<^verbatim>\<open>TypeError\<close>, and the loop stands in no \<^verbatim>\<open>try\<close>.
\<close>

type_synonym grade_table = "(string \<times> object list) list"

definition addGrade :: "grade_table \<Rightarrow> message \<Rightarrow> exception + grade_table" where
  "addGrade processGrades gradeMsg =
     (case first_args gradeMsg of
        None \<Rightarrow> Inr processGrades
      | Some gradeData \<Rightarrow>
          (let processUUID = property_key (map_of gradeData ''process_UUID'')
           in case map_of processGrades processUUID of
                Some collected \<Rightarrow>
                  Inr (AList.update processUUID (collected @ [gradeData]) processGrades)
              | None \<Rightarrow>
                  if processUUID \<in> set objectPrototypeNames
                  then Inl (Error ''TypeError'')
                  else Inr (AList.update processUUID [gradeData] processGrades)))"

text \<open>The loop: the steps in message order, up to the first that throws.\<close>

fun groupGrades :: "grade_table \<Rightarrow> message list \<Rightarrow> exception + grade_table" where
  "groupGrades processGrades [] = Inr processGrades"
| "groupGrades processGrades (gradeMsg # rest) =
     (case addGrade processGrades gradeMsg of
        Inl e \<Rightarrow> Inl e
      | Inr grouped \<Rightarrow> groupGrades grouped rest)"

text \<open>
  One request per key of \<^verbatim>\<open>Object.keys(processGrades)\<close>: the key, the name in the
  first sample, and the samples. No request depends on an earlier reply.
\<close>

record summary_request =
  process_uuid :: string
  process_name :: json
  grades :: "object list"

definition summaryRequests :: "grade_table \<Rightarrow> summary_request list" where
  "summaryRequests processGrades =
     concat (map (\<lambda>processUUID.
        case map_of processGrades processUUID of
          None \<Rightarrow> []
        | Some [] \<Rightarrow> []
        | Some (first # others) \<Rightarrow>
            [\<lparr>process_uuid = processUUID,
              process_name = js_or (map_of first ''process_name'') (JStr ''Unknown Process''),
              grades = first # others\<rparr>])
       (object_keys processGrades))"

definition technicalRequests :: "state \<Rightarrow> exception + summary_request list" where
  "technicalRequests st =
     (case groupGrades [] (filter (first_tool_is ''technical_grader'') (messages st)) of
        Inl e \<Rightarrow> Inl e
      | Inr processGrades \<Rightarrow> Inr (summaryRequests processGrades))"

text \<open>
  The replies are collected in order; a request whose call throws is logged and left out.
  The stage itself throws what the grouping threw.
\<close>

definition summarize_technical_grades ::
    "(summary_request \<Rightarrow> exception + message) \<Rightarrow> state \<Rightarrow> exception + message list" where
  "summarize_technical_grades chain st =
     (case technicalRequests st of
        Inl e \<Rightarrow> Inl e
      | Inr requests \<Rightarrow>
          Inr (concat (map (\<lambda>request. case chain request of Inl e \<Rightarrow> [] | Inr response \<Rightarrow> [response])
                 requests)))"

subsection \<open>The final summary\<close>

text \<open>
  \<^verbatim>\<open>final_summarizer\<close> (lines 977 to 1097) builds the object \<^verbatim>\<open>allProcesses\<close>,
  keyed by \<^verbatim>\<open>process_UUID\<close>. An entry of it is an object made and changed by the
  function; its properties are listed with the value \<^const>\<open>None\<close> where a property holds
  \<^verbatim>\<open>undefined\<close>. The function assigns to properties of \<^verbatim>\<open>allProcesses[key]\<close>,
  and for the key \<^verbatim>\<open>__proto__\<close> that is \<^verbatim>\<open>Object.prototype\<close>: the heap of the
  function is the table together with the properties it has added to the prototype so
  far, which every object then inherits.
\<close>

type_synonym entry = "(string \<times> json option) list"

record heap =
  allProcesses :: "(string \<times> entry) list"
  objectPrototype :: entry

text \<open>
  \<^verbatim>\<open>obj.name\<close> for a name that \<^verbatim>\<open>Object.prototype\<close> has only if it was
  added: the own property, else the added one. \<open>readProperty\<close> reads an entry,
  \<open>readArg\<close> the arguments of a tool call.
\<close>

definition readProperty :: "entry \<Rightarrow> entry \<Rightarrow> string \<Rightarrow> json option" where
  "readProperty added obj name =
     (case map_of obj name of
        Some v \<Rightarrow> v
      | None \<Rightarrow> (case map_of added name of Some v \<Rightarrow> v | None \<Rightarrow> None))"

definition readArg :: "entry \<Rightarrow> object \<Rightarrow> string \<Rightarrow> json option" where
  "readArg added data name =
     (case map_of data name of
        Some v \<Rightarrow> Some v
      | None \<Rightarrow> (case map_of added name of Some v \<Rightarrow> v | None \<Rightarrow> None))"

text \<open>
  What \<^verbatim>\<open>allProcesses[key]\<close> reads: an entry of the table; else a value added to the
  prototype under that name; else the prototype itself for \<^verbatim>\<open>__proto__\<close>; else a
  function for another name of \<^verbatim>\<open>Object.prototype\<close>; else \<^verbatim>\<open>undefined\<close>.
  \<open>present\<close> is its truthiness.
\<close>

datatype target = OwnEntry | AddedValue json | ThePrototype | AFunction | NoValue

definition lookupProcess :: "heap \<Rightarrow> string \<Rightarrow> target" where
  "lookupProcess h key =
     (if key \<in> fst ` set (allProcesses h) then OwnEntry
      else case map_of (objectPrototype h) key of
             Some (Some v) \<Rightarrow> AddedValue v
           | Some None \<Rightarrow> NoValue
           | None \<Rightarrow>
               if key = ''__proto__'' then ThePrototype
               else if key \<in> set objectPrototypeNames then AFunction
               else NoValue)"

definition present :: "target \<Rightarrow> bool" where
  "present t = (case t of NoValue \<Rightarrow> False | AddedValue v \<Rightarrow> truthy v | other \<Rightarrow> True)"

text \<open>
  \<^verbatim>\<open>allProcesses[key] = entry\<close>, which the function executes only when
  \<^verbatim>\<open>allProcesses[key]\<close> is falsy, and so not for \<^verbatim>\<open>__proto__\<close>: it creates an
  own property of the table.
\<close>

definition createProcess :: "string \<Rightarrow> entry \<Rightarrow> heap \<Rightarrow> heap" where
  "createProcess key e h = h\<lparr>allProcesses := AList.update key e (allProcesses h)\<rparr>"

text \<open>
  \<^verbatim>\<open>x.name = v\<close> inside a JSON value \<open>x\<close> that is an object. Within a JSON value a
  property that holds \<^verbatim>\<open>undefined\<close> is left out, as \<^verbatim>\<open>JSON.stringify\<close> leaves
  it out.
\<close>

definition setProperty :: "string \<Rightarrow> json option \<Rightarrow> object \<Rightarrow> object" where
  "setProperty name v kvs =
     (case v of None \<Rightarrow> AList.delete name kvs | Some w \<Rightarrow> AList.update name w kvs)"

text \<open>
  \<^verbatim>\<open>allProcesses[key].name = v\<close>. On an entry and on the prototype the property is
  set. A property set on a built-in function, or on an array, is read by nothing
  modelled. A value added to the prototype is reached under its name as a key: when it is
  an object the property is set on it (the message it came from holds the same object;
  the model does not follow that message), and when it is a primitive the assignment
  throws a \<^verbatim>\<open>TypeError\<close>, the module being in strict mode. So does an assignment to
  a property of \<^verbatim>\<open>undefined\<close>.
\<close>

definition assignProperty :: "string \<Rightarrow> string \<Rightarrow> json option \<Rightarrow> heap \<Rightarrow> exception + heap" where
  "assignProperty key name v h =
     (case lookupProcess h key of
        OwnEntry \<Rightarrow>
          Inr (h\<lparr>allProcesses := AList.map_entry key (AList.update name v) (allProcesses h)\<rparr>)
      | ThePrototype \<Rightarrow> Inr (h\<lparr>objectPrototype := AList.update name v (objectPrototype h)\<rparr>)
      | AFunction \<Rightarrow> Inr h
      | AddedValue x \<Rightarrow>
          (case x of
             JObj kvs \<Rightarrow>
               Inr (h\<lparr>objectPrototype :=
                        AList.update key (Some (JObj (setProperty name v kvs))) (objectPrototype h)\<rparr>)
           | JArr xs \<Rightarrow> Inr h
           | JNull \<Rightarrow> Inl (Error ''TypeError'')
           | JBool b \<Rightarrow> Inl (Error ''TypeError'')
           | JNum n \<Rightarrow> Inl (Error ''TypeError'')
           | JStr str \<Rightarrow> Inl (Error ''TypeError''))
      | NoValue \<Rightarrow> Inl (Error ''TypeError''))"

text \<open>
  The three loops (lines 999 to 1047), one step each: for a summary whose first tool call
  has a truthy \<^verbatim>\<open>process_UUID\<close>, create the entry if \<^verbatim>\<open>allProcesses[key]\<close> is
  falsy, then assign the grade. The spatial loop also assigns a truthy location when it
  creates no entry. The loops stand in no \<^verbatim>\<open>try\<close>.
\<close>

definition addTechnical :: "heap \<Rightarrow> message \<Rightarrow> exception + heap" where
  "addTechnical h summary =
     (case first_args summary of
        None \<Rightarrow> Inr h
      | Some data \<Rightarrow>
          (let added = objectPrototype h
           in if truthy_opt (readArg added data ''process_UUID'')
              then (let key = property_key (readArg added data ''process_UUID'');
                        created =
                          (if present (lookupProcess h key) then h
                           else createProcess key
                                  [(''process_UUID'', readArg added data ''process_UUID''),
                                   (''process_name'', readArg added data ''process_name''),
                                   (''flow_count'', readArg added data ''flow_count'')] h)
                    in assignProperty key ''technical_grade''
                         (readArg added data ''final_technical_representativeness'') created)
              else Inr h))"

definition addSpatial :: "heap \<Rightarrow> message \<Rightarrow> exception + heap" where
  "addSpatial h summary =
     (case first_args summary of
        None \<Rightarrow> Inr h
      | Some data \<Rightarrow>
          (let added = objectPrototype h
           in if truthy_opt (readArg added data ''process_UUID'')
              then (let key = property_key (readArg added data ''process_UUID'')
                    in case (if \<not> present (lookupProcess h key)
                             then Inr (createProcess key
                                         [(''process_UUID'', readArg added data ''process_UUID''),
                                          (''process_name'', readArg added data ''process_name''),
                                          (''location'', readArg added data ''location''),
                                          (''flow_count'', readArg added data ''flow_count'')] h)
                             else if truthy_opt (readArg added data ''location'')
                             then assignProperty key ''location'' (readArg added data ''location'') h
                             else Inr h) of
                         Inl e \<Rightarrow> Inl e
                       | Inr located \<Rightarrow>
                           assignProperty key ''spatial_grade''
                             (readArg (objectPrototype located) data
                                ''final_spatial_representativeness'')
                             located)
              else Inr h))"

definition addTime :: "heap \<Rightarrow> message \<Rightarrow> exception + heap" where
  "addTime h summary =
     (case first_args summary of
        None \<Rightarrow> Inr h
      | Some data \<Rightarrow>
          (let added = objectPrototype h
           in if truthy_opt (readArg added data ''process_UUID'')
              then (let key = property_key (readArg added data ''process_UUID'');
                        created =
                          (if present (lookupProcess h key) then h
                           else createProcess key
                                  [(''process_UUID'', readArg added data ''process_UUID''),
                                   (''process_name'', readArg added data ''process_name''),
                                   (''flow_count'', readArg added data ''flow_count'')] h)
                    in assignProperty key ''time_grade''
                         (readArg added data ''final_time_representativeness'') created)
              else Inr h))"

text \<open>A loop: its steps in message order, up to the first that throws.\<close>

fun forEach :: "(heap \<Rightarrow> message \<Rightarrow> exception + heap) \<Rightarrow> heap \<Rightarrow> message list \<Rightarrow> exception + heap" where
  "forEach step h [] = Inr h"
| "forEach step h (summary # rest) =
     (case step h summary of Inl e \<Rightarrow> Inl e | Inr h' \<Rightarrow> forEach step h' rest)"

definition collectGrades :: "state \<Rightarrow> exception + heap" where
  "collectGrades st =
     (let technicalSummaries = filter (has_tool ''technical_summary'') (messages st);
          spatialSummaries = filter (has_tool ''spatial_summary'') (messages st);
          timeSummaries = filter (has_tool ''time_summary'') (messages st)
      in case forEach addTechnical \<lparr>allProcesses = [], objectPrototype = []\<rparr> technicalSummaries of
           Inl e \<Rightarrow> Inl e
         | Inr h1 \<Rightarrow>
             (case forEach addSpatial h1 spatialSummaries of
                Inl e \<Rightarrow> Inl e
              | Inr h2 \<Rightarrow> forEach addTime h2 timeSummaries))"

text \<open>
  Lines 1056 to 1089: a process with a falsy grade is skipped; for the others a message
  with one \<^verbatim>\<open>final_summary\<close> tool call is made. The properties of
  \<^verbatim>\<open>processData\<close> are read as any property is: the entry's own, else the one added
  to the prototype. An \<^verbatim>\<open>undefined\<close> grade is falsy.
\<close>

definition finalSummary :: "string \<Rightarrow> json \<Rightarrow> json \<Rightarrow> json \<Rightarrow> json \<Rightarrow> json \<Rightarrow> json \<Rightarrow> message" where
  "finalSummary processUUID name location flowCount technical spatial time =
     \<lparr>msg_content = [],
      tool_calls = Some
        [\<lparr>tc_name = ''final_summary'',
          tc_args =
            [(''process_UUID'', JStr processUUID),
             (''process_name'', name),
             (''location'', location),
             (''flow_count'', flowCount),
             (''technical_representativeness'', technical),
             (''spatial_representativeness'', spatial),
             (''time_representativeness'', time)]\<rparr>]\<rparr>"

definition summarizeProcess :: "heap \<Rightarrow> string \<Rightarrow> message list" where
  "summarizeProcess h processUUID =
     (case map_of (allProcesses h) processUUID of
        None \<Rightarrow> []
      | Some processData \<Rightarrow>
          (case readProperty (objectPrototype h) processData ''technical_grade'' of
             None \<Rightarrow> []
           | Some technical \<Rightarrow>
               (case readProperty (objectPrototype h) processData ''spatial_grade'' of
                  None \<Rightarrow> []
                | Some spatial \<Rightarrow>
                    (case readProperty (objectPrototype h) processData ''time_grade'' of
                       None \<Rightarrow> []
                     | Some time \<Rightarrow>
                         if \<not> truthy technical \<or> \<not> truthy spatial \<or> \<not> truthy time
                         then []
                         else [finalSummary processUUID
                                 (js_or (readProperty (objectPrototype h) processData ''process_name'')
                                    (JStr ''Unknown Process''))
                                 (js_or (readProperty (objectPrototype h) processData ''location'')
                                    (JStr ''Unknown Location''))
                                 (js_or (readProperty (objectPrototype h) processData ''flow_count'')
                                    (JStr ''0''))
                                 technical spatial time]))))"

definition final_summarizer :: "state \<Rightarrow> exception + message list" where
  "final_summarizer st =
     (case collectGrades st of
        Inl e \<Rightarrow> Inl e
      | Inr h \<Rightarrow> Inr (concat (map (summarizeProcess h) (object_keys (allProcesses h)))))"

subsection \<open>The selection\<close>

text \<open>
  \<^verbatim>\<open>getSelectedFlow\<close> (lines 45 to 62) and \<^verbatim>\<open>process_selector\<close> (lines 1146 to
  1232). The request carries the arguments of the first tool call of every message with a
  \<^verbatim>\<open>final_summary\<close> tool call, and the heterogeneity result. The reply is returned as
  it is; its \<^verbatim>\<open>process_UUID\<close>, or the empty string, selects the flows. When the
  chat model throws, so does the stage.
\<close>

record selector_request =
  process_info :: "object list"
  heterogeneity :: json

record selection =
  selected_messages :: "message list"
  selected_flow :: json

definition getSelectedFlow :: "file_system \<Rightarrow> string \<Rightarrow> json \<Rightarrow> state \<Rightarrow> json" where
  "getSelectedFlow fs file_path processUUID st =
     (let sheetName = selected_flow_sheet st
      in if sheetName = [] then JArr []
         else getSheetData fs file_path sheetName
                (Some [(''process_UUID'', processUUID), (''Input/Output'', JStr ''Input'')])
                (Some [''flow_name'', ''flow_UUID'']))"

definition candidates :: "state \<Rightarrow> object list" where
  "candidates st =
     concat (map (\<lambda>summary. case first_args summary of None \<Rightarrow> [] | Some data \<Rightarrow> [data])
       (filter (has_tool ''final_summary'') (messages st)))"

definition selectorRequest :: "state \<Rightarrow> selector_request" where
  "selectorRequest st =
     \<lparr>process_info = candidates st,
      heterogeneity =
        (case find (has_tool ''heterogeneity_evaluator'') (messages st) of
           None \<Rightarrow> JStr ''No data''
         | Some heterogeneityEval \<Rightarrow>
             (case first_args heterogeneityEval of
                None \<Rightarrow> JStr ''No data''
              | Some args \<Rightarrow> JObj args))\<rparr>"

definition process_selector ::
    "file_system \<Rightarrow> string \<Rightarrow> (selector_request \<Rightarrow> exception + message) \<Rightarrow> state
       \<Rightarrow> exception + selection" where
  "process_selector fs file_path chain st =
     (case chain (selectorRequest st) of
        Inl e \<Rightarrow> Inl e
      | Inr response \<Rightarrow>
          (let selectedProcessUUID =
                 js_or (arg (first_args response) ''process_UUID'') (JStr [])
           in Inr \<lparr>selected_messages = [response],
                   selected_flow = getSelectedFlow fs file_path selectedProcessUUID st\<rparr>))"

subsection \<open>The same stages in unnamed/part\_002\<close>

text \<open>
  \<^verbatim>\<open>summarize_technical_grades\<close> of unnamed/part\_002 (lines 558 to 613) sends the
  arguments of the first three \<^verbatim>\<open>technical_grader\<close> messages, \<^verbatim>\<open>"No data"\<close> for a
  missing one, in a single request.
\<close>

definition gradeOutput :: "message list \<Rightarrow> nat \<Rightarrow> json" where
  "gradeOutput technicalResults i =
     (if i < length technicalResults
      then (case first_args (technicalResults ! i) of
              None \<Rightarrow> JStr ''No data''
            | Some args \<Rightarrow> JObj args)
      else JStr ''No data'')"

definition summarize_technical_grades_queue ::
    "(json \<times> json \<times> json \<Rightarrow> exception + message) \<Rightarrow> state \<Rightarrow> exception + message list" where
  "summarize_technical_grades_queue chain st =
     (let technicalResults = filter (first_tool_is ''technical_grader'') (messages st)
      in case chain (gradeOutput technicalResults 0, gradeOutput technicalResults 1,
                     gradeOutput technicalResults 2) of
           Inl e \<Rightarrow> Inl e
         | Inr response \<Rightarrow> Inr [response])"

text \<open>
  \<^verbatim>\<open>process_selector\<close> of unnamed/part\_002 (lines 844 to 920) sends the arguments of
  the first \<^verbatim>\<open>final_summary\<close> message only, and reads the flows from the sheet
  \<^verbatim>\<open>flow_all\<close>.
\<close>

definition firstArgsOr :: "message option \<Rightarrow> json" where
  "firstArgsOr found =
     (case found of
        None \<Rightarrow> JStr ''No data''
      | Some msg \<Rightarrow> (case first_args msg of None \<Rightarrow> JStr ''No data'' | Some args \<Rightarrow> JObj args))"

definition process_selector_queue ::
    "file_system \<Rightarrow> string \<Rightarrow> (json \<times> json \<Rightarrow> exception + message) \<Rightarrow> state
       \<Rightarrow> exception + selection" where
  "process_selector_queue fs file_path chain st =
     (case chain (firstArgsOr (find (has_tool ''final_summary'') (messages st)),
                  firstArgsOr (find (has_tool ''heterogeneity_evaluator'') (messages st))) of
        Inl e \<Rightarrow> Inl e
      | Inr response \<Rightarrow>
          (let selectedProcessUUID =
                 js_or (arg (first_args response) ''process_UUID'') (JStr [])
           in Inr \<lparr>selected_messages = [response],
                   selected_flow =
                     getSheetData fs file_path ''flow_all''
                       (Some [(''process_UUID'', selectedProcessUUID),
                              (''Input/Output'', JStr ''Input'')])
                       (Some [''flow_name'', ''flow_UUID''])\<rparr>))"

section \<open>Observations on the controller\<close>

text \<open>
  Any number of calls, concurrent or not, reach the shared set as a sequence of
  \<^const>\<open>admit\<close> steps: the order in which JavaScript happens to run their synchronous
  starts. \<open>admitSequence\<close> runs such a sequence, given as the demand and the depth of
  each call; \<open>acceptedKeys\<close> lists the canonical keys of the calls it accepted.
\<close>

fun admitSequence :: "(string \<times> nat) list \<Rightarrow> controller \<Rightarrow> admission list \<times> controller" where
  "admitSequence [] c = ([], c)"
| "admitSequence ((dem, depth) # rest) c =
     (let (a, c1) = admit dem depth c;
          (as, c2) = admitSequence rest c1
      in (a # as, c2))"

definition acceptedKeys :: "(string \<times> nat) list \<Rightarrow> controller \<Rightarrow> string list" where
  "acceptedKeys cs c =
     map (\<lambda>(call, a). demandHash (fst call))
       (filter (\<lambda>(call, a). a = Accepted) (zip cs (fst (admitSequence cs c))))"

text \<open>
  The number of keys accepted so far is the size of the set; the number of calls made so
  far is the number of \<^verbatim>\<open>console.log\<close> lines that every call writes on entry.
\<close>

definition is_call :: "log_line \<Rightarrow> bool" where
  "is_call l = (case l of LogProcessing depth dem \<Rightarrow> True | LogMaxDepth depth \<Rightarrow> False
                | LogDuplicate depth dem \<Rightarrow> False)"

definition admitted :: "controller \<Rightarrow> nat" where
  "admitted c = length (processedDemands c)"

definition callCount :: "controller \<Rightarrow> nat" where
  "callCount c = length (filter is_call (console c))"

text \<open>From \<open>c\<close> to \<open>c'\<close> at most \<open>a\<close> keys were accepted and at most \<open>k\<close> calls made.\<close>

definition within :: "nat \<Rightarrow> nat \<Rightarrow> controller \<Rightarrow> controller \<Rightarrow> bool" where
  "within a k c c' = (admitted c' \<le> admitted c + a \<and> callCount c' \<le> callCount c + k)"

text \<open>A graph that never throws and leaves exactly two new demands at the end of every run.\<close>

definition yieldsTwo :: "(string \<Rightarrow> exception + state) \<Rightarrow> bool" where
  "yieldsTwo invoke =
     (\<forall>dem. case invoke dem of Inl e \<Rightarrow> False | Inr result \<Rightarrow> length (demands result) = 2)"

text \<open>One such graph: two fresh demands per run, and a \<^verbatim>\<open>workflow_restarter\<close> message.\<close>

definition binaryGraph :: "string \<Rightarrow> exception + state" where
  "binaryGraph dem =
     Inr \<lparr>messages =
            [\<lparr>msg_content = [],
              tool_calls = Some [\<lparr>tc_name = ''workflow_restarter'', tc_args = []\<rparr>]\<rparr>],
          selected_flow_sheet = [],
          demands = [\<lparr>content = dem @ ''a'', flow_name = [], flow_UUID = []\<rparr>,
                     \<lparr>content = dem @ ''b'', flow_name = [], flow_UUID = []\<rparr>],
          current_demand_index = 0, has_parallel_demands = False\<rparr>"

definition emptyController :: controller where
  "emptyController =
     \<lparr>processedDemands = [], processSelectors = [], workflowRestarters = [], console = []\<rparr>"


section \<open>Observations on the grading workflow\<close>

text \<open>
  \<open>graded_by key uuid g m\<close>: the summary message \<open>m\<close> gives the process \<open>uuid\<close> the
  grade \<open>g\<close> under \<open>key\<close>. \<open>summaryKey\<close> is the key under which the loops of
  \<^verbatim>\<open>final_summarizer\<close> file a summary message, if they file it. \<open>grades_traced\<close>:
  nothing has been added to \<^verbatim>\<open>Object.prototype\<close>, and every grade in the table comes
  from a summary message of its axis.
\<close>

definition graded_by :: "string \<Rightarrow> string \<Rightarrow> json \<Rightarrow> message \<Rightarrow> bool" where
  "graded_by gradeKey processUUID grade summary =
     (first_args summary \<noteq> None \<and>
      truthy_opt (arg (first_args summary) ''process_UUID'') \<and>
      property_key (arg (first_args summary) ''process_UUID'') = processUUID \<and>
      arg (first_args summary) gradeKey = Some grade)"

definition summaryKey :: "message \<Rightarrow> string option" where
  "summaryKey summary =
     (if truthy_opt (arg (first_args summary) ''process_UUID'')
      then Some (property_key (arg (first_args summary) ''process_UUID''))
      else None)"

definition entry_traced ::
    "message set \<Rightarrow> message set \<Rightarrow> message set \<Rightarrow> string \<Rightarrow> entry \<Rightarrow> bool" where
  "entry_traced T S M k e =
     ((\<forall>g. map_of e ''technical_grade'' = Some (Some g) \<longrightarrow>
         (\<exists>m \<in> T. graded_by ''final_technical_representativeness'' k g m)) \<and>
      (\<forall>g. map_of e ''spatial_grade'' = Some (Some g) \<longrightarrow>
         (\<exists>m \<in> S. graded_by ''final_spatial_representativeness'' k g m)) \<and>
      (\<forall>g. map_of e ''time_grade'' = Some (Some g) \<longrightarrow>
         (\<exists>m \<in> M. graded_by ''final_time_representativeness'' k g m)))"

definition grades_traced :: "message set \<Rightarrow> message set \<Rightarrow> message set \<Rightarrow> heap \<Rightarrow> bool" where
  "grades_traced T S M h =
     (objectPrototype h = [] \<and>
      (\<forall>k e. map_of (allProcesses h) k = Some e \<longrightarrow> entry_traced T S M k e))"

text \<open>
  The samples of the technical axis, in message order: the arguments of the first tool call
  of every \<^verbatim>\<open>technical_grader\<close> message. \<open>sampleKey\<close> is the key under which a
  sample is grouped, \<open>firstOccurrences\<close> a list without its repetitions, \<open>keyOrder\<close>
  the order in which \<^verbatim>\<open>Object.keys\<close> lists keys inserted in a given order, and
  \<open>grouped\<close> says that a table holds, under the keys of the samples in order of first
  occurrence, the samples of each key in message order. \<open>sampleOr\<close> is the sample at a
  position, or \<^verbatim>\<open>"No data"\<close>.
\<close>

definition technicalSamples :: "state \<Rightarrow> object list" where
  "technicalSamples st =
     List.map_filter first_args (filter (first_tool_is ''technical_grader'') (messages st))"

definition sampleKey :: "object \<Rightarrow> string" where
  "sampleKey gradeData = property_key (map_of gradeData ''process_UUID'')"

definition firstOccurrences :: "string list \<Rightarrow> string list" where
  "firstOccurrences ks = rev (remdups (rev ks))"

definition keyOrder :: "string list \<Rightarrow> string list" where
  "keyOrder ks = object_keys (map (\<lambda>k. (k, ())) ks)"

definition grouped :: "grade_table \<Rightarrow> object list \<Rightarrow> bool" where
  "grouped processGrades samples =
     (map fst processGrades = firstOccurrences (map sampleKey samples) \<and>
      (\<forall>k \<in> set (map sampleKey samples).
         map_of processGrades k = Some (filter (\<lambda>d. sampleKey d = k) samples)))"

definition sampleOr :: "object list \<Rightarrow> nat \<Rightarrow> json" where
  "sampleOr samples i = (if i < length samples then JObj (samples ! i) else JStr ''No data'')"

text \<open>
  Example states and chat models. \<open>gradedState\<close>: two processes, the second without a
  spatial grade. \<open>inheritedGrades\<close>: a process with a technical grade only, and a spatial
  and a time summary for the process \<^verbatim>\<open>__proto__\<close>. \<open>splitSamples\<close>: two samples
  for one process, grades 1 and 3.
\<close>

definition inheritedGrades :: state where
  "inheritedGrades = stateWith
     [toolMessage ''technical_summary''
        [(''process_UUID'', JStr ''p2''), (''process_name'', JStr ''casting''),
         (''flow_count'', JStr ''2''), (''final_technical_representativeness'', JStr ''2'')],
      toolMessage ''spatial_summary''
        [(''process_UUID'', JStr ''__proto__''), (''location'', JStr ''CN''),
         (''final_spatial_representativeness'', JStr ''1'')],
      toolMessage ''time_summary''
        [(''process_UUID'', JStr ''__proto__''), (''final_time_representativeness'', JStr ''1'')]]"

definition gradedState :: state where
  "gradedState = stateWith
     [toolMessage ''technical_summary'' [(''process_UUID'', JStr ''p1''), (''process_name'', JStr ''smelting''), (''flow_count'', JStr ''5''), (''final_technical_representativeness'', JStr ''1'')],
      toolMessage ''technical_summary'' [(''process_UUID'', JStr ''p2''), (''process_name'', JStr ''casting''), (''flow_count'', JStr ''2''), (''final_technical_representativeness'', JStr ''2'')],
      toolMessage ''spatial_summary'' [(''process_UUID'', JStr ''p1''), (''location'', JStr ''CN''), (''final_spatial_representativeness'', JStr ''2'')],
      toolMessage ''time_summary'' [(''process_UUID'', JStr ''p1''), (''final_time_representativeness'', JStr ''3'')],
      toolMessage ''time_summary'' [(''process_UUID'', JStr ''p2''), (''final_time_representativeness'', JStr ''4'')]]"

definition p1Summary :: message where
  "p1Summary =
     toolMessage ''final_summary''
       [(''process_UUID'', JStr ''p1''), (''process_name'', JStr ''smelting''),
        (''location'', JStr ''CN''), (''flow_count'', JStr ''5''),
        (''technical_representativeness'', JStr ''1''),
        (''spatial_representativeness'', JStr ''2''),
        (''time_representativeness'', JStr ''3'')]"

definition technicalGrade :: "string \<Rightarrow> string \<Rightarrow> message" where
  "technicalGrade processUUID grade =
     toolMessage ''technical_grader''
       [(''process_UUID'', JStr processUUID), (''process_name'', JStr ''smelting''),
        (''technical_representativeness'', JStr grade)]"

definition splitSamples :: state where
  "splitSamples = stateWith [technicalGrade ''p1'' ''1'', technicalGrade ''p1'' ''3'']"

definition technicalSummaryOf :: "string \<Rightarrow> message" where
  "technicalSummaryOf grade =
     toolMessage ''technical_summary''
       [(''process_UUID'', JStr ''p1''), (''final_technical_representativeness'', JStr grade)]"

definition answersOne :: "summary_request \<Rightarrow> exception + message" where
  "answersOne request = Inr (technicalSummaryOf ''1'')"

definition answersThree :: "summary_request \<Rightarrow> exception + message" where
  "answersThree request = Inr (technicalSummaryOf ''3'')"

definition answersOneForP1 :: "summary_request \<Rightarrow> exception + message" where
  "answersOneForP1 request =
     (if process_uuid request = ''p1'' then Inr (technicalSummaryOf ''1'')
      else Inl (Error ''timeout''))"

definition answersOneQueue :: "json \<times> json \<times> json \<Rightarrow> exception + message" where
  "answersOneQueue request = Inr (technicalSummaryOf ''1'')"

definition answersThreeQueue :: "json \<times> json \<times> json \<Rightarrow> exception + message" where
  "answersThreeQueue request = Inr (technicalSummaryOf ''3'')"

definition inventsP9 :: "selector_request \<Rightarrow> exception + message" where
  "inventsP9 request =
     Inr (toolMessage ''process_selector''
            [(''process_UUID'', JStr ''p9''), (''process_name'', JStr ''rolling''),
             (''location'', JStr ''GLO''), (''flow_count'', JStr ''1'')])"

definition inventsP9Queue :: "json \<times> json \<Rightarrow> exception + message" where
  "inventsP9Queue request =
     Inr (toolMessage ''process_selector''
            [(''process_UUID'', JStr ''p9''), (''process_name'', JStr ''rolling''),
             (''location'', JStr ''GLO''), (''flow_count'', JStr ''1'')])"

text \<open>
  Two candidates, the second with the better technical grade, and a chat model that
  answers with the first candidate it is given.
\<close>

definition twoCandidates :: state where
  "twoCandidates =
     stateWith
       [toolMessage ''final_summary''
          [(''process_UUID'', JStr ''p2''), (''technical_representativeness'', JStr ''2''),
           (''spatial_representativeness'', JStr ''1''), (''time_representativeness'', JStr ''1'')],
        toolMessage ''final_summary''
          [(''process_UUID'', JStr ''p1''), (''technical_representativeness'', JStr ''1''),
           (''spatial_representativeness'', JStr ''1''), (''time_representativeness'', JStr ''1'')]]"

definition picksFirst :: "selector_request \<Rightarrow> exception + message" where
  "picksFirst request =
     (case process_info request of
        [] \<Rightarrow> Inl (Error ''nothing to select'')
      | candidate # others \<Rightarrow> Inr (toolMessage ''process_selector'' candidate))"

chapter \<open>Properties\<close>

section \<open>The canonical key\<close>

lemma of_char_less_256: "(of_char c :: nat) < 256"
  by (cases c) simp

lemma isWhiteSpace_toLowerCaseUnit [simp]: "isWhiteSpace (toLowerCaseUnit c) = isWhiteSpace c"
proof -
  have "(of_char c :: nat) < 256" by (rule of_char_less_256)
  then show ?thesis
    by (auto simp: isWhiteSpace_def toLowerCaseUnit_def isUpperCase_def Let_def)
qed

lemma toLowerCaseUnit_idem [simp]: "toLowerCaseUnit (toLowerCaseUnit c) = toLowerCaseUnit c"
proof -
  have "(of_char c :: nat) < 256" by (rule of_char_less_256)
  then show ?thesis
    by (auto simp: toLowerCaseUnit_def isUpperCase_def Let_def)
qed















section \<open>Admission\<close>

lemma admit_cases:
  "admit dem depth c = (a, c1) \<Longrightarrow>
     (a = Accepted \<and> demandHash dem \<notin> set (processedDemands c)
        \<and> processedDemands c1 = processedDemands c @ [demandHash dem])
     \<or> (a \<noteq> Accepted \<and> processedDemands c1 = processedDemands c)"
  by (auto simp: admit_def Let_def split: if_splits)

lemma admit_skips_visited:
  "demandHash dem \<in> set (processedDemands c) \<Longrightarrow> fst (admit dem depth c) \<noteq> Accepted"
  by (simp add: admit_def Let_def)

lemma acceptedKeys_Nil [simp]: "acceptedKeys [] c = []"
  by (simp add: acceptedKeys_def)

lemma acceptedKeys_Cons:
  "acceptedKeys ((dem, depth) # rest) c =
     (if fst (admit dem depth c) = Accepted then [demandHash dem] else [])
     @ acceptedKeys rest (snd (admit dem depth c))"
  by (simp add: acceptedKeys_def split_beta Let_def)

text \<open>The set after a sequence of calls: what it held before, then the accepted keys.\<close>

lemma processed_after_sequence:
  "processedDemands (snd (admitSequence cs c)) = processedDemands c @ acceptedKeys cs c"
proof (induction cs arbitrary: c)
  case Nil
  show ?case by simp
next
  case (Cons call cs)
  obtain dem depth where call: "call = (dem, depth)" by (cases call)
  obtain a c1 where a: "admit dem depth c = (a, c1)" by (cases "admit dem depth c")
  from admit_cases [OF a] Cons.IH [of c1] show ?case
    by (auto simp: call a acceptedKeys_Cons split_beta Let_def)
qed

lemma accepted_fresh_and_distinct:
  "distinct (acceptedKeys cs c) \<and> set (acceptedKeys cs c) \<inter> set (processedDemands c) = {}"
proof (induction cs arbitrary: c)
  case Nil
  show ?case by simp
next
  case (Cons call cs)
  obtain dem depth where call: "call = (dem, depth)" by (cases call)
  obtain a c1 where a: "admit dem depth c = (a, c1)" by (cases "admit dem depth c")
  from admit_cases [OF a] Cons.IH [of c1] show ?case
    by (auto simp: call a acceptedKeys_Cons)
qed

lemma admit_accepts_iff:
  "(fst (admit dem depth c) = Accepted) =
     (depth < MAX_RECURSION_DEPTH \<and> demandHash dem \<notin> set (processedDemands c))"
  by (simp add: admit_def Let_def)

lemma admit_inserts:
  "processedDemands (snd (admit dem depth c)) =
     (if fst (admit dem depth c) = Accepted then processedDemands c @ [demandHash dem]
      else processedDemands c)"
  by (simp add: admit_def Let_def)

text \<open>
  C1: whatever the sequence in which the calls reach the set, and whatever the set holds
  at its start, no two accepted calls have the same canonical key, no accepted key was in
  the set before, and the set afterwards holds exactly the former keys and the accepted
  ones. A call whose key is in the set is therefore skipped. The test and the insertion
  are one \<^const>\<open>admit\<close> step: the source has no \<^verbatim>\<open>await\<close> between
  \<^verbatim>\<open>processedDemands.has\<close> and \<^verbatim>\<open>processedDemands.add\<close>, and a call is
  accepted exactly when it is below the depth limit and its key is not in the set, which
  then gains the key in the same step.
\<close>

theorem admit_never_accepts_a_key_twice:
  "distinct (acceptedKeys cs c) \<and>
   set (acceptedKeys cs c) \<inter> set (processedDemands c) = {} \<and>
   processedDemands (snd (admitSequence cs c)) = processedDemands c @ acceptedKeys cs c \<and>
   (fst (admit dem depth c) = Accepted) =
     (depth < MAX_RECURSION_DEPTH \<and> demandHash dem \<notin> set (processedDemands c)) \<and>
   processedDemands (snd (admit dem depth c)) =
     (if fst (admit dem depth c) = Accepted then processedDemands c @ [demandHash dem]
      else processedDemands c)"
  using accepted_fresh_and_distinct [of cs c] processed_after_sequence [of cs c]
    admit_accepts_iff [of dem depth c] admit_inserts [of dem depth c]
  by simp

theorem admit_never_accepts_a_key_twice_witness:
  "acceptedKeys [(''Steel'', 1), ('' steel  '', 2), (''Iron'', 1), (''STEEL'', 0), (''Coal'', 3)]
     emptyController = [''steel'', ''iron''] \<and>
   distinct (acceptedKeys [(''Steel'', 1), ('' steel  '', 2), (''Iron'', 1), (''STEEL'', 0), (''Coal'', 3)]
     emptyController)"
proof -
  have "acceptedKeys [(''Steel'', 1), ('' steel  '', 2), (''Iron'', 1), (''STEEL'', 0), (''Coal'', 3)]
     emptyController = [''steel'', ''iron'']"
    by code_simp
  with admit_never_accepts_a_key_twice
         [of "[(''Steel'', 1), ('' steel  '', 2), (''Iron'', 1), (''STEEL'', 0), (''Coal'', 3)]"
             emptyController]
  show ?thesis by simp
qed

section \<open>The depth bound\<close>

declare afterInvoke.simps [simp del] processInBatches.simps [simp del]

lemma within_refl: "within 0 0 c c"
  by (simp add: within_def)

lemma within_trans:
  "within a k c c' \<Longrightarrow> within a' k' c' c'' \<Longrightarrow> within (a + a') (k + k') c c''"
  by (auto simp: within_def)

lemma within_mono: "within a k c c' \<Longrightarrow> a \<le> a' \<Longrightarrow> k \<le> k' \<Longrightarrow> within a' k' c c'"
  by (auto simp: within_def)

text \<open>One call is one more line on the console, and at most one more key; none at the depth limit.\<close>

lemma within_admit:
  "within (if depth \<ge> MAX_RECURSION_DEPTH then 0 else 1) 1 c (snd (admit dem depth c))"
  by (simp add: within_def admit_def Let_def admitted_def callCount_def is_call_def)

lemma within_admitBatch:
  "within (if depth \<ge> MAX_RECURSION_DEPTH then 0 else length ds) (length ds) c
     (snd (admitBatch ds depth c))"
proof (induction ds arbitrary: c)
  case Nil
  show ?case by (simp add: within_refl)
next
  case (Cons d ds)
  have 1: "within (if depth \<ge> MAX_RECURSION_DEPTH then 0 else 1) 1 c
             (snd (admit (content d) depth c))"
    by (rule within_admit)
  have 2: "within (if depth \<ge> MAX_RECURSION_DEPTH then 0 else length ds) (length ds)
             (snd (admit (content d) depth c))
             (snd (admitBatch ds depth (snd (admit (content d) depth c))))"
    by (rule Cons.IH)
  have "snd (admitBatch (d # ds) depth c) =
          snd (admitBatch ds depth (snd (admit (content d) depth c)))"
    by (simp add: split_beta Let_def)
  with within_trans [OF 1 2] show ?case by (simp split: if_splits)
qed

lemma length_admitBatch: "length (fst (admitBatch ds depth c)) = length ds"
  by (induction ds arbitrary: c) (simp_all add: split_beta Let_def)

lemma within_resumeAll:
  assumes "\<And>dem c. Suc depth < MAX_RECURSION_DEPTH \<Longrightarrow>
             within b k c (snd (afterInvoke invoke dem (Suc depth) c))"
  shows "within (length ps * b) (length ps * k) c (resumeAll invoke ps depth c)"
proof (induction ps arbitrary: c)
  case Nil
  show ?case by (simp add: within_refl)
next
  case (Cons p ps)
  obtain d a where p: "p = (d, a)" by (cases p)
  let ?c1 = "if a = Accepted \<and> Suc depth < MAX_RECURSION_DEPTH
             then snd (afterInvoke invoke (content d) (Suc depth) c) else c"
  have 1: "within b k c ?c1"
    using assms [of c "content d"] by (auto intro: within_mono [OF within_refl])
  have 2: "within (length ps * b) (length ps * k) ?c1 (resumeAll invoke ps depth ?c1)"
    by (rule Cons.IH)
  from within_trans [OF 1 2] show ?case by (simp add: p add.commute)
qed

text \<open>Up to five demands are one batch.\<close>

lemma processInBatches_one_batch:
  assumes "ds \<noteq> []" "length ds \<le> CONCURRENCY_LIMIT"
  shows "processInBatches invoke ds depth c =
           resumeAll invoke (zip ds (fst (admitBatch ds (Suc depth) c))) depth
             (snd (admitBatch ds (Suc depth) c))"
  using assms
  by (subst processInBatches.simps) (simp add: Let_def processInBatches.simps [of _ "[]"])

text \<open>
  One level of the recursion: a call whose run leaves two demands makes two calls, each
  accepted at most once below the depth limit, and every accepted one costs what a call one
  level deeper costs.
\<close>

lemma within_afterInvoke_step:
  assumes two: "yieldsTwo invoke"
    and deeper: "\<And>dem c. Suc depth < MAX_RECURSION_DEPTH \<Longrightarrow>
             within b k c (snd (afterInvoke invoke dem (Suc depth) c))"
  shows "within ((if Suc depth \<ge> MAX_RECURSION_DEPTH then 0 else 2) + 2 * b) (2 + 2 * k) c
           (snd (afterInvoke invoke dem depth c))"
proof -
  define A where "A = (if Suc depth \<ge> MAX_RECURSION_DEPTH then 0 else 2) + 2 * b"
  define K where "K = 2 + 2 * k"
  from two obtain result where r: "invoke dem = Inr result" "length (demands result) = 2"
    unfolding yieldsTwo_def by (metis (mono_tags, lifting) sum.case_eq_if sum.collapse(2))
  let ?ds = "demands result"
  have batch: "within A K c' (processInBatches invoke ?ds depth c')" for c'
  proof -
    let ?st = "admitBatch ?ds (Suc depth) c'"
    have ne: "?ds \<noteq> []" "length ?ds \<le> CONCURRENCY_LIMIT"
      using r(2) by (auto simp: CONCURRENCY_LIMIT_def)
    have 1: "within (if Suc depth \<ge> MAX_RECURSION_DEPTH then 0 else 2) 2 c' (snd ?st)"
      using within_admitBatch [of "Suc depth" ?ds c'] unfolding r(2) .
    have 2: "within (2 * b) (2 * k) (snd ?st)
               (resumeAll invoke (zip ?ds (fst ?st)) depth (snd ?st))"
      using within_resumeAll [of depth b k invoke "zip ?ds (fst ?st)" "snd ?st", OF deeper]
      by (simp add: length_admitBatch r(2))
    from within_trans [OF 1 2] show ?thesis
      by (simp add: processInBatches_one_batch [OF ne] A_def K_def)
  qed
  have frame: "within a' k' (c'\<lparr>processSelectors := f\<rparr>) c'' = within a' k' c' c''"
    "within a' k' (c'\<lparr>workflowRestarters := g\<rparr>) c'' = within a' k' c' c''"
    for a' k' c' c'' f g
    by (simp_all add: within_def admitted_def callCount_def)
  have small: "within A K c' (c'\<lparr>processSelectors := f\<rparr>)"
    "within A K c' (c'\<lparr>workflowRestarters := g\<rparr>)"
    "within A K c' (c'\<lparr>processSelectors := f, workflowRestarters := g\<rparr>)"
    "within A K c' c'" for c' f g
    by (simp_all add: within_def admitted_def callCount_def)
  have framed: "within A K c'
      (processInBatches invoke ?ds depth (c'\<lparr>processSelectors := f, workflowRestarters := g\<rparr>))"
    "within A K c'
      (processInBatches invoke ?ds depth (c'\<lparr>workflowRestarters := g\<rparr>))" for c' f g
    using batch [of "c'\<lparr>processSelectors := f, workflowRestarters := g\<rparr>"]
      batch [of "c'\<lparr>workflowRestarters := g\<rparr>"]
    by (simp_all add: frame)
  have "within A K c (snd (afterInvoke invoke dem depth c))"
    by (simp add: afterInvoke.simps r(1) Let_def small framed split: option.splits)
  then show ?thesis by (simp only: A_def K_def)
qed

text \<open>Depth 2: the two calls at depth 3 are turned away. Depth 1: 2 keys, 6 calls. Depth 0: 6 keys, 14 calls.\<close>

lemma within_afterInvoke_2:
  assumes "yieldsTwo invoke"
  shows "within 0 2 c (snd (afterInvoke invoke dem (Suc (Suc 0)) c))"
proof -
  have "within ((if Suc (Suc (Suc 0)) \<ge> MAX_RECURSION_DEPTH then 0 else 2) + 2 * 0) (2 + 2 * 0) c
          (snd (afterInvoke invoke dem (Suc (Suc 0)) c))"
    by (rule within_afterInvoke_step [OF assms]) (simp add: MAX_RECURSION_DEPTH_def)
  then show ?thesis by (rule within_mono) (simp_all add: MAX_RECURSION_DEPTH_def)
qed

lemma within_afterInvoke_1:
  assumes "yieldsTwo invoke"
  shows "within 2 6 c (snd (afterInvoke invoke dem (Suc 0) c))"
proof -
  have "within ((if Suc (Suc 0) \<ge> MAX_RECURSION_DEPTH then 0 else 2) + 2 * 0) (2 + 2 * 2) c
          (snd (afterInvoke invoke dem (Suc 0) c))"
    by (rule within_afterInvoke_step [OF assms]) (rule within_afterInvoke_2 [OF assms])
  then show ?thesis by (rule within_mono) (simp_all add: MAX_RECURSION_DEPTH_def)
qed

lemma within_afterInvoke_0:
  assumes "yieldsTwo invoke"
  shows "within 6 14 c (snd (afterInvoke invoke dem 0 c))"
proof -
  have "within ((if Suc 0 \<ge> MAX_RECURSION_DEPTH then 0 else 2) + 2 * 2) (2 + 2 * 6) c
          (snd (afterInvoke invoke dem 0 c))"
    by (rule within_afterInvoke_step [OF assms]) (rule within_afterInvoke_1 [OF assms])
  then show ?thesis by (rule within_mono) (simp_all add: MAX_RECURSION_DEPTH_def)
qed

lemma within_root:
  assumes "yieldsTwo invoke"
  shows "within 7 15 c (snd (processDemandsRecursively invoke dem 0 c))"
proof -
  have 1: "within 1 1 c (snd (admit dem 0 c))"
    using within_admit [of 0 c dem] by (simp add: MAX_RECURSION_DEPTH_def)
  have 2: "within 6 14 (snd (admit dem 0 c))
             (snd (afterInvoke invoke dem 0 (snd (admit dem 0 c))))"
    by (rule within_afterInvoke_0 [OF assms])
  have 3: "within 7 15 c (snd (afterInvoke invoke dem 0 (snd (admit dem 0 c))))"
    using within_trans [OF 1 2] by simp
  have 4: "within 7 15 c (snd (admit dem 0 c))"
    using 1 by (rule within_mono) simp_all
  show ?thesis
    using 3 4
    by (cases "admit dem 0 c")
       (auto simp: processDemandsRecursively_def split: admission.splits)
qed

text \<open>
  The count of accepted child calls is in fact at most \<open>2 + 4 = 6\<close>: the eight calls at
  depth 3 are made and turned away. With \<^const>\<open>binaryGraph\<close> both bounds are reached.
\<close>

lemma child_admissions_at_most_six:
  assumes "yieldsTwo invoke"
  shows "length (processedDemands (snd (analyzeCompleteLifeCycle invoke initialDemand c))) \<le> 1 + 6"
  using within_root [OF assms,
          of "c\<lparr>processedDemands := [], processSelectors := [], workflowRestarters := []\<rparr>"
             initialDemand]
  by (simp add: analyzeCompleteLifeCycle_def within_def admitted_def)

lemma binaryGraph_reaches_the_bounds:
  "length (processedDemands (snd (analyzeCompleteLifeCycle binaryGraph ''x'' emptyController))) = 1 + 6 \<and>
   callCount (snd (analyzeCompleteLifeCycle binaryGraph ''x'' emptyController)) = 1 + 14"
  by code_simp

text \<open>
  C2: with the depth limit 3 and a graph that leaves exactly two new demands at the end of
  every run, one life cycle accepts the initial demand and at most 14 child calls, and it
  makes at most 14 child calls at all.
\<close>

theorem depth_bounded_child_admissions:
  assumes "yieldsTwo invoke"
  shows "length (processedDemands (snd (analyzeCompleteLifeCycle invoke initialDemand c))) \<le> 1 + 14 \<and>
         callCount (snd (analyzeCompleteLifeCycle invoke initialDemand c)) \<le> callCount c + (1 + 14)"
  using within_root [OF assms,
          of "c\<lparr>processedDemands := [], processSelectors := [], workflowRestarters := []\<rparr>"
             initialDemand]
  by (simp add: analyzeCompleteLifeCycle_def within_def admitted_def callCount_def)

theorem depth_bounded_child_admissions_witness:
  "yieldsTwo binaryGraph \<and>
   length (processedDemands (snd (analyzeCompleteLifeCycle binaryGraph ''x'' emptyController))) \<le> 1 + 14 \<and>
   callCount (snd (analyzeCompleteLifeCycle binaryGraph ''x'' emptyController))
     \<le> callCount emptyController + (1 + 14)"
proof -
  have two: "yieldsTwo binaryGraph"
    by (simp add: yieldsTwo_def binaryGraph_def)
  from two depth_bounded_child_admissions [OF two, of "''x''" emptyController]
  show ?thesis by simp
qed

section \<open>Routing in the queue workflow\<close>

text \<open>
  C3, as stated, fails twice. At the cap itself: with ten extracted demands in the history
  the routing after \<^verbatim>\<open>boundary_judger\<close> still follows the boundary judgement and goes
  on. And beyond the cap: with eleven extracted demands in the history and a demand
  pending in the queue, the routing after \<^verbatim>\<open>demand_extractor\<close> returns to
  \<^verbatim>\<open>demand_extractor\<close>, which extracts a twelfth.
\<close>

theorem ten_iterations_continue:
  "extractions tenExtractions = 10 \<and>
   shouldContinueBoundaryAnalysis tenExtractions = ''continue_analysis'' \<and>
   extractions elevenPending = 11 \<and>
   shouldProcessNextDemand elevenPending = ''process_next_demand'' \<and>
   map_option (\<lambda>u. extractions (apply_update elevenPending u))
     (case demand_extractor extractsProcess elevenPending of Inl e \<Rightarrow> None | Inr u \<Rightarrow> Some u)
     = Some 12"
  by code_simp

text \<open>
  C3, amended: the routing after \<^verbatim>\<open>boundary_judger\<close> ends the workflow whenever more
  than ten messages carry a \<^verbatim>\<open>demand_extractor\<close> tool call, whatever was judged. With
  ten or fewer the cap does not end it: the routing goes on when there is a boundary
  judgement and no boundary judgement in the history says "Yes". The routing after
  \<^verbatim>\<open>demand_extractor\<close> does not consult the count: it returns to the extractor
  exactly while the queue flag is set and the index is inside the queue.
\<close>

theorem iteration_cap_routing:
  "(extractions st > 10 \<longrightarrow> shouldContinueBoundaryAnalysis st = ''end_workflow'') \<and>
   (extractions st \<le> 10 \<and>
    list_ex (has_tool ''boundary_judger'') (messages st) \<and>
    list_all (\<lambda>m. has_tool ''boundary_judger'' m \<longrightarrow>
                arg (first_args m) ''whether_reach_cradle'' \<noteq> Some (JStr ''Yes'')) (messages st)
      \<longrightarrow> shouldContinueBoundaryAnalysis st = ''continue_analysis'') \<and>
   (shouldProcessNextDemand st = ''process_next_demand'') =
     (has_parallel_demands st \<and> current_demand_index st < length (demands st))"
proof (intro conjI impI)
  show "shouldContinueBoundaryAnalysis st = ''end_workflow''" if "extractions st > 10"
    using that by (simp add: shouldContinueBoundaryAnalysis_def extractions_def)
  show "shouldContinueBoundaryAnalysis st = ''continue_analysis''"
    if "extractions st \<le> 10 \<and>
        list_ex (has_tool ''boundary_judger'') (messages st) \<and>
        list_all (\<lambda>m. has_tool ''boundary_judger'' m \<longrightarrow>
                    arg (first_args m) ''whether_reach_cradle'' \<noteq> Some (JStr ''Yes'')) (messages st)"
  proof -
    from that obtain judgerOutput where
      found: "find (has_tool ''boundary_judger'') (messages st) = Some judgerOutput"
      by (cases "find (has_tool ''boundary_judger'') (messages st)")
         (auto simp: find_None_iff list_ex_iff)
    then have "judgerOutput \<in> set (messages st)" "has_tool ''boundary_judger'' judgerOutput"
      by (auto simp: find_Some_iff)
    with that have "arg (first_args judgerOutput) ''whether_reach_cradle'' \<noteq> Some (JStr ''Yes'')"
      by (auto simp: list_all_iff)
    with that found show ?thesis
      by (simp add: shouldContinueBoundaryAnalysis_def extractions_def)
  qed
  show "(shouldProcessNextDemand st = ''process_next_demand'') =
     (has_parallel_demands st \<and> current_demand_index st < length (demands st))"
    by (auto simp: shouldProcessNextDemand_def)
qed

theorem iteration_cap_routing_witness:
  "extractions elevenExtractions > 10 \<and>
   shouldContinueBoundaryAnalysis elevenExtractions = ''end_workflow'' \<and>
   extractions tenExtractions \<le> 10 \<and>
   list_ex (has_tool ''boundary_judger'') (messages tenExtractions) \<and>
   map (\<lambda>m. arg (first_args m) ''whether_reach_cradle'')
     (filter (has_tool ''boundary_judger'') (messages tenExtractions)) = [Some (JStr ''No'')] \<and>
   shouldContinueBoundaryAnalysis tenExtractions = ''continue_analysis''"
proof -
  have more: "extractions elevenExtractions > 10"
    by code_simp
  have ten: "extractions tenExtractions \<le> 10"
    by code_simp
  have judged: "list_ex (has_tool ''boundary_judger'') (messages tenExtractions)"
    by code_simp
  have no: "map (\<lambda>m. arg (first_args m) ''whether_reach_cradle'')
     (filter (has_tool ''boundary_judger'') (messages tenExtractions)) = [Some (JStr ''No'')]"
    by code_simp
  have notyes: "list_all (\<lambda>m. has_tool ''boundary_judger'' m \<longrightarrow>
                arg (first_args m) ''whether_reach_cradle'' \<noteq> Some (JStr ''Yes''))
     (messages tenExtractions)"
    unfolding list_all_iff
  proof (intro ballI impI)
    fix m
    assume "m \<in> set (messages tenExtractions)" "has_tool ''boundary_judger'' m"
    then have "arg (first_args m) ''whether_reach_cradle''
        \<in> set (map (\<lambda>m. arg (first_args m) ''whether_reach_cradle'')
                 (filter (has_tool ''boundary_judger'') (messages tenExtractions)))"
      by simp
    then have "arg (first_args m) ''whether_reach_cradle'' = Some (JStr ''No'')"
      by (simp only: no) simp
    then show "arg (first_args m) ''whether_reach_cradle'' \<noteq> Some (JStr ''Yes'')"
      by simp
  qed
  from iteration_cap_routing [of elevenExtractions] more
  have "shouldContinueBoundaryAnalysis elevenExtractions = ''end_workflow''"
    by blast
  moreover from iteration_cap_routing [of tenExtractions] ten judged notyes
  have "shouldContinueBoundaryAnalysis tenExtractions = ''continue_analysis''"
    by blast
  ultimately show ?thesis using more ten judged no by blast
qed

text \<open>
  The routing after \<^verbatim>\<open>flow_judger\<close> decides on the first message with a
  \<^verbatim>\<open>flow_judger\<close> tool call, and on the arguments of that message's first tool call.
\<close>

lemma shouldContinueFlowJudger_reads_first:
  "(shouldContinueFlowJudger st = ''continue_workflow'') =
     (length (filter (has_tool ''flow_judger'') (messages st)) \<le> 10 \<and>
      (\<exists>judgerOutput. find (has_tool ''flow_judger'') (messages st) = Some judgerOutput \<and>
         arg (first_args judgerOutput) ''empty_result'' \<noteq> Some (JBool True) \<and>
         js_length (js_or (arg (first_args judgerOutput) ''combined_flows'') (JArr []))
           \<noteq> Some (JNum 0)))"
  by (auto simp: shouldContinueFlowJudger_def Let_def split: option.splits)

text \<open>
  C6 on the code: in a second round the message list holds the first round's
  \<^verbatim>\<open>flow_judger\<close> message in front of the one just made, and the routing goes on to
  \<^verbatim>\<open>flow_filter\<close> although the merge just made is empty.
\<close>

theorem empty_merge_in_second_round_continues:
  "last (messages secondRoundEmptyMerge) =
     toolMessage ''flow_judger'' [(''combined_flows'', JArr []), (''empty_result'', JBool True)] \<and>
   shouldContinueFlowJudger secondRoundEmptyMerge = ''continue_workflow''"
  by code_simp

section \<open>The data source\<close>

lemma is_error_result_error_result [simp]: "is_error_result (error_result msg)"
  by (simp add: error_result_def)

lemma is_error_result_data: "is_error_result v \<Longrightarrow> json_get v ''data'' = Some (JArr [])"
  by (induction v rule: is_error_result.induct) simp_all

lemma applyFilters_Inl: "applyFilters es data = Inl err \<Longrightarrow> is_error_result err"
  by (induction es data rule: applyFilters.induct) (auto split: list.splits if_splits)

lemma applyFilters_Inr: "applyFilters es data = Inr filtered \<Longrightarrow> set filtered \<subseteq> set data"
  by (induction es data rule: applyFilters.induct) (auto split: list.splits if_splits)

text \<open>
  A filter on a column for which \<^verbatim>\<open>column in row\<close> is false in every row is an error,
  wherever it stands among the filters.
\<close>

lemma applyFilters_missing_column:
  assumes "(c, v) \<in> set es" "\<forall>row \<in> set data. \<not> js_in c row"
  shows "\<exists>err. applyFilters es data = Inl err"
  using assms
proof (induction es data rule: applyFilters.induct)
  case (1 data)
  then show ?case by simp
next
  case (2 column w rest data)
  show ?case
  proof (cases data)
    case Nil
    then show ?thesis by simp
  next
    case (Cons row0 others)
    show ?thesis
    proof (cases "\<not> js_in column row0")
      case True
      with Cons show ?thesis by simp
    next
      case False
      with Cons "2.prems" have "(c, v) \<in> set rest" by auto
      moreover have "\<forall>row \<in> set (filter (\<lambda>row. strict_equals (map_of row column) w) data).
                       \<not> js_in c row"
        using "2.prems"(2) by simp
      ultimately have "\<exists>err. applyFilters rest
                         (filter (\<lambda>row. strict_equals (map_of row column) w) data) = Inl err"
        using "2.IH" [OF Cons False] by blast
      with Cons False show ?thesis by simp
    qed
  qed
qed

lemma set_object_keys: "set (object_keys obj) = fst ` set obj"
  by (auto simp: object_keys_def)

lemma object_entries_key:
  assumes "c \<in> fst ` set obj"
  shows "\<exists>v. (c, v) \<in> set (object_entries obj)"
proof -
  from assms obtain v where v: "map_of obj c = Some v"
    by (metis domD dom_map_of_conv_image_fst)
  from assms have "c \<in> set (object_keys obj)" by (simp add: set_object_keys)
  with v have "(c, v) \<in> set (object_entries obj)"
    by (force simp: object_entries_def)
  then show ?thesis ..
qed

lemma map_JObj_ex [simp]: "\<exists>rows. map (\<lambda>row. JObj (f row)) xs = map JObj rows"
  by (rule exI [of _ "map f xs"]) simp

lemma extractTry_Inr:
  "extractTry fs p s fc cols = Inr v \<Longrightarrow>
     is_error_result v \<or> (\<exists>rows. v = JArr (map JObj rows))"
  by (auto simp: extractTry_def
      split: if_splits sum.splits option.splits dest: applyFilters_Inl)

lemma extract_shape:
  "is_error_result (extractSheetToJson fs p s fc cols) \<or>
   (\<exists>rows. extractSheetToJson fs p s fc cols = JArr (map JObj rows))"
  using extractTry_Inr [of fs p s fc cols]
  by (auto simp: extractSheetToJson_def split: sum.splits exception.splits)

lemma extract_failures:
  "\<not> existsSync fs p \<Longrightarrow> is_error_result (extractSheetToJson fs p s fc cols)"
  "readFile fs p = Inl e \<Longrightarrow> is_error_result (extractSheetToJson fs p s fc cols)"
  "readFile fs p = Inr wb \<Longrightarrow> s \<notin> set (SheetNames wb) \<Longrightarrow>
     is_error_result (extractSheetToJson fs p s fc cols)"
  "readFile fs p = Inr wb \<Longrightarrow> sheet_to_json wb s = Inl e \<Longrightarrow>
     is_error_result (extractSheetToJson fs p s fc cols)"
  "readFile fs p = Inr wb \<Longrightarrow> sheet_to_json wb s = Inr data \<Longrightarrow> fc = Some filters \<Longrightarrow>
     applyFilters (object_entries filters) data = Inl err \<Longrightarrow>
     is_error_result (extractSheetToJson fs p s fc cols)"
  by (auto simp: extractSheetToJson_def extractTry_def
      split: sum.splits exception.splits option.splits dest: applyFilters_Inl)

lemma extract_empty_sheet:
  assumes "readFile fs p = Inr wb" "sheet_to_json wb s = Inr []"
  shows "is_error_result (extractSheetToJson fs p s fc (Some cs))"
proof -
  have "applyFilters es [] = Inr filtered \<Longrightarrow> filtered = []" for es filtered
    using applyFilters_Inr [of es "[]" filtered] by simp
  with assms show ?thesis
    by (auto simp: extractSheetToJson_def extractTry_def
        split: sum.splits exception.splits option.splits dest: applyFilters_Inl)
qed

lemma extract_missing_filter_column:
  assumes "readFile fs p = Inr wb" "sheet_to_json wb s = Inr data"
    and "c \<in> fst ` set filters" "c \<notin> set objectPrototypeNames"
    and "\<forall>row \<in> set data. c \<notin> fst ` set row"
  shows "is_error_result (extractSheetToJson fs p s (Some filters) cols)"
proof -
  from assms(3) obtain v where "(c, v) \<in> set (object_entries filters)"
    using object_entries_key by blast
  moreover from assms(4,5) have "\<forall>row \<in> set data. \<not> js_in c row"
    by (simp add: js_in_def)
  ultimately obtain err where "applyFilters (object_entries filters) data = Inl err"
    using applyFilters_missing_column by blast
  with assms(1,2) show ?thesis by (rule extract_failures(5) [OF _ _ refl])
qed

text \<open>
  A filter on a column that no row has leaves no row, whether or not it is reported.
\<close>

lemma applyFilters_Nil: "applyFilters es [] = Inr filtered \<Longrightarrow> filtered = []"
  using applyFilters_Inr [of es "[]" filtered] by simp

lemma applyFilters_absent_column:
  assumes "(c, v) \<in> set es" "\<forall>row \<in> set data. c \<notin> fst ` set row"
    and "applyFilters es data = Inr filtered"
  shows "filtered = []"
  using assms
proof (induction es data rule: applyFilters.induct)
  case (1 data)
  then show ?case by simp
next
  case (2 column w rest data)
  show ?case
  proof (cases data)
    case Nil
    with "2.prems"(3) show ?thesis by simp
  next
    case (Cons row0 others)
    let ?kept = "filter (\<lambda>row. strict_equals (map_of row column) w) data"
    from Cons "2.prems"(3) have in0: "js_in column row0" and rest: "applyFilters rest ?kept = Inr filtered"
      by (auto split: if_splits)
    show ?thesis
    proof (cases "column = c")
      case True
      have "map_of row c = None" if "row \<in> set data" for row
        using that "2.prems"(2) by (simp add: map_of_eq_None_iff)
      with True have "?kept = []" by (auto simp: filter_empty_conv)
      with rest show ?thesis by (simp add: applyFilters_Nil)
    next
      case False
      with "2.prems"(1) have "(c, v) \<in> set rest" by auto
      moreover have "\<forall>row \<in> set ?kept. c \<notin> fst ` set row"
        using "2.prems"(2) by simp
      ultimately show ?thesis
        using "2.IH" [OF Cons] in0 rest by blast
    qed
  qed
qed

lemma extract_absent_filter_column:
  assumes "readFile fs p = Inr wb" "sheet_to_json wb s = Inr data"
    and "c \<in> fst ` set filters" "\<forall>row \<in> set data. c \<notin> fst ` set row"
  shows "is_error_result (extractSheetToJson fs p s (Some filters) cols) \<or>
         extractSheetToJson fs p s (Some filters) cols = JArr []"
proof -
  from assms(3) obtain v where v: "(c, v) \<in> set (object_entries filters)"
    using object_entries_key by blast
  show ?thesis
  proof (cases "applyFilters (object_entries filters) data")
    case (Inl err)
    with assms(1,2) have "is_error_result (extractSheetToJson fs p s (Some filters) cols)"
      by (rule extract_failures(5) [OF _ _ refl])
    then show ?thesis ..
  next
    case (Inr filtered)
    with v assms(4) have "filtered = []" by (rule applyFilters_absent_column)
    with Inr assms(1,2) show ?thesis
      by (cases "existsSync fs p"; cases cols)
         (simp_all add: extractSheetToJson_def extractTry_def)
  qed
qed


text \<open>
  A filter on a name of \<^verbatim>\<open>Object.prototype\<close> that no row has is not reported: the test
  \<^verbatim>\<open>column in data[0]\<close> finds the inherited property, the comparison then removes
  every row, and the empty array is returned.
\<close>

lemma inherited_filter_column_is_not_reported:
  "extractSheetToJson oneSheetDisk ''T2C_dataset_Al.xlsx'' ''flow_all''
     (Some [(''constructor'', JStr ''x'')]) None = JArr []"
  by code_simp

lemma object_keys_cong: "map fst a = map fst b \<Longrightarrow> object_keys a = object_keys b"
  by (simp add: object_keys_def)

lemma distinct_object_keys: "distinct (map fst obj) \<Longrightarrow> distinct (object_keys obj)"
  by (auto simp: object_keys_def)

lemma object_entries_map:
  "object_entries obj = map (\<lambda>k. (k, the (map_of obj k))) (object_keys obj)"
proof -
  have "\<forall>k \<in> set ks. k \<in> fst ` set obj \<Longrightarrow>
      concat (map (\<lambda>k. case map_of obj k of None \<Rightarrow> [] | Some v \<Rightarrow> [(k, v)]) ks)
      = map (\<lambda>k. (k, the (map_of obj k))) ks" for ks
  proof (induction ks)
    case Nil
    then show ?case by simp
  next
    case (Cons k ks)
    then obtain v where "map_of obj k = Some v"
      by (metis domD dom_map_of_conv_image_fst list.set_intros(1))
    with Cons show ?case by simp
  qed
  then show ?thesis
    unfolding object_entries_def by (simp add: set_object_keys)
qed

lemma map_fst_object_entries: "map fst (object_entries obj) = object_keys obj"
  by (simp add: object_entries_map comp_def)

lemma map_of_object_entries: "map_of (object_entries obj) k = map_of obj k"
proof (cases "k \<in> fst ` set obj")
  case True
  then obtain v where "map_of obj k = Some v"
    by (metis domD dom_map_of_conv_image_fst)
  moreover from True have "k \<in> set (object_keys obj)" by (simp add: set_object_keys)
  ultimately show ?thesis
    by (simp add: object_entries_map map_of_map_restrict)
next
  case False
  then have "map_of obj k = None" by (simp add: map_of_eq_None_iff)
  moreover from False have "k \<notin> set (object_keys obj)" by (simp add: set_object_keys)
  ultimately show ?thesis
    by (simp add: object_entries_map map_of_map_restrict)
qed

lemma map_of_foldl_update:
  "map_of (foldl (\<lambda>acc col. AList.update col (f col) acc) acc0 cols) k =
     (if k \<in> set cols then Some (f k) else map_of acc0 k)"
  by (induction cols arbitrary: acc0) (auto simp: update_conv')

lemma keys_foldl_update:
  "fst ` set (foldl (\<lambda>acc col. AList.update col (f col) acc) acc0 cols) = fst ` set acc0 \<union> set cols"
  by (induction cols arbitrary: acc0) (auto simp: dom_update)

lemma distinct_foldl_update:
  "distinct (map fst acc0) \<Longrightarrow>
     distinct (map fst (foldl (\<lambda>acc col. AList.update col (f col) acc) acc0 cols))"
  by (induction cols arbitrary: acc0) (auto simp: distinct_update)

lemma keys_list_foldl_update:
  "map fst acc0 = map fst acc1 \<Longrightarrow>
   map fst (foldl (\<lambda>acc col. AList.update col (f col) acc) acc0 cols)
     = map fst (foldl (\<lambda>acc col. AList.update col (g col) acc) acc1 cols)"
proof (induction cols arbitrary: acc0 acc1)
  case Nil
  then show ?case by simp
next
  case (Cons c cols)
  have "map fst (AList.update c (f c) acc0) = map fst (AList.update c (g c) acc1)"
    using Cons.prems by (simp add: update_keys)
  from Cons.IH [OF this] show ?case by simp
qed

lemma projectedValue_plain:
  "col \<notin> set objectPrototypeNames \<Longrightarrow>
     projectedValue col row = Some (case map_of row col of None \<Rightarrow> JNull | Some v \<Rightarrow> v)"
  by (auto simp: projectedValue_def objectPrototypeNames_def split: option.splits)

lemma projectRow_plain:
  assumes "set cols \<inter> set objectPrototypeNames = {}"
  shows "projectRow cols row =
     object_entries
       (foldl (\<lambda>newRow col.
                 AList.update col (case map_of row col of None \<Rightarrow> JNull | Some v \<Rightarrow> v) newRow)
          [] cols)"
proof -
  have "foldl (\<lambda>newRow col. case projectedValue col row of
                   None \<Rightarrow> newRow | Some v \<Rightarrow> AList.update col v newRow) [] cols
      = foldl (\<lambda>newRow col.
                 AList.update col (case map_of row col of None \<Rightarrow> JNull | Some v \<Rightarrow> v) newRow)
          [] cols"
  proof (rule foldl_cong [OF refl refl])
    fix newRow col
    assume "col \<in> set cols"
    with assms have "col \<notin> set objectPrototypeNames" by blast
    then show "(case projectedValue col row of
                   None \<Rightarrow> newRow | Some v \<Rightarrow> AList.update col v newRow)
       = AList.update col (case map_of row col of None \<Rightarrow> JNull | Some v \<Rightarrow> v) newRow"
      by (simp add: projectedValue_plain)
  qed
  then show ?thesis by (simp add: projectRow_def)
qed

lemma projectRow_lookup:
  "set cols \<inter> set objectPrototypeNames = {} \<Longrightarrow>
   map_of (projectRow cols row) c =
     (if c \<in> set cols then Some (case map_of row c of None \<Rightarrow> JNull | Some v \<Rightarrow> v) else None)"
  by (simp add: projectRow_plain map_of_object_entries map_of_foldl_update)

lemma projectRow_keys:
  "set cols \<inter> set objectPrototypeNames = {} \<Longrightarrow> set (map fst (projectRow cols row)) = set cols"
  using keys_foldl_update [of _ "[]" cols]
  by (simp add: projectRow_plain map_fst_object_entries set_object_keys)

lemma projectRow_distinct:
  "set cols \<inter> set objectPrototypeNames = {} \<Longrightarrow> distinct (map fst (projectRow cols row))"
  by (simp add: projectRow_plain map_fst_object_entries distinct_object_keys distinct_foldl_update)

lemma projectRow_uniform:
  assumes "set cols \<inter> set objectPrototypeNames = {}"
  shows "map fst (projectRow cols row) = map fst (projectRow cols row')"
proof -
  have "map fst (foldl (\<lambda>newRow col.
                 AList.update col (case map_of row col of None \<Rightarrow> JNull | Some v \<Rightarrow> v) newRow)
          [] cols)
      = map fst (foldl (\<lambda>newRow col.
                 AList.update col (case map_of row' col of None \<Rightarrow> JNull | Some v \<Rightarrow> v) newRow)
          [] cols)"
    by (rule keys_list_foldl_update) simp
  then have "object_keys (foldl (\<lambda>newRow col.
                 AList.update col (case map_of row col of None \<Rightarrow> JNull | Some v \<Rightarrow> v) newRow)
          [] cols)
      = object_keys (foldl (\<lambda>newRow col.
                 AList.update col (case map_of row' col of None \<Rightarrow> JNull | Some v \<Rightarrow> v) newRow)
          [] cols)"
    by (rule object_keys_cong)
  then show ?thesis
    by (simp only: projectRow_plain [OF assms] map_fst_object_entries)
qed

lemma extract_projected:
  assumes "extractSheetToJson fs p s fc (Some cols) = JArr rows"
  shows "\<exists>wb data filtered. readFile fs p = Inr wb \<and> sheet_to_json wb s = Inr data \<and>
           set filtered \<subseteq> set data \<and> rows = map (\<lambda>row. JObj (projectRow cols row)) filtered"
proof -
  have ne: "error_result m \<noteq> JArr rows" for m by (simp add: error_result_def)
  have ne2: "is_error_result err \<Longrightarrow> err \<noteq> JArr rows" for err by auto
  from assms ne show ?thesis
    apply (simp add: extractSheetToJson_def extractTry_def
        split: sum.splits exception.splits option.splits if_splits)
    apply (auto dest: applyFilters_Inl applyFilters_Inr ne2)
    done
qed

text \<open>
  With no name of \<^verbatim>\<open>Object.prototype\<close> among the projected columns, every returned
  row has exactly the projected columns as its keys, each once and in the same order in
  every row, with \<^verbatim>\<open>null\<close> under a column that the row of the sheet lacks.
\<close>

lemma projected_rows_are_uniform_for_other_columns:
  assumes "extractSheetToJson fs p s fc (Some cols) = JArr rows"
    and "set cols \<inter> set objectPrototypeNames = {}"
  shows "\<forall>r \<in> set rows. \<exists>kvs src wb data.
           r = JObj kvs \<and> distinct (map fst kvs) \<and> set (map fst kvs) = set cols \<and>
           readFile fs p = Inr wb \<and> sheet_to_json wb s = Inr data \<and> src \<in> set data \<and>
           (\<forall>c \<in> set cols. map_of kvs c = Some (case map_of src c of None \<Rightarrow> JNull | Some v \<Rightarrow> v)) \<and>
           (\<forall>r' \<in> set rows. json_keys r' = map fst kvs)"
proof
  fix r
  assume r: "r \<in> set rows"
  from extract_projected [OF assms(1)] obtain wb data filtered where
    src: "readFile fs p = Inr wb" "sheet_to_json wb s = Inr data" "set filtered \<subseteq> set data"
    and rows: "rows = map (\<lambda>row. JObj (projectRow cols row)) filtered"
    by blast
  from r rows obtain src where s: "src \<in> set filtered" "r = JObj (projectRow cols src)"
    by auto
  have "\<forall>r' \<in> set rows. json_keys r' = map fst (projectRow cols src)"
    using rows projectRow_uniform [OF assms(2), of _ src] by auto
  moreover have "\<forall>c \<in> set cols. map_of (projectRow cols src) c =
                   Some (case map_of src c of None \<Rightarrow> JNull | Some v \<Rightarrow> v)"
    by (simp add: projectRow_lookup [OF assms(2)])
  ultimately show "\<exists>kvs src wb data.
           r = JObj kvs \<and> distinct (map fst kvs) \<and> set (map fst kvs) = set cols \<and>
           readFile fs p = Inr wb \<and> sheet_to_json wb s = Inr data \<and> src \<in> set data \<and>
           (\<forall>c \<in> set cols. map_of kvs c = Some (case map_of src c of None \<Rightarrow> JNull | Some v \<Rightarrow> v)) \<and>
           (\<forall>r' \<in> set rows. json_keys r' = map fst kvs)"
    using s src projectRow_distinct [OF assms(2), of src] projectRow_keys [OF assms(2), of src]
    by blast
qed

text \<open>
  C9 on the code: a projected column that is named like a property of
  \<^verbatim>\<open>Object.prototype\<close> and that the rows of the sheet lack is left out of every
  returned row instead of being filled with \<^verbatim>\<open>null\<close>, because
  \<^verbatim>\<open>col in row\<close> finds the inherited property. Here \<^verbatim>\<open>flow_name\<close>, which the
  second row lacks, is filled, and \<^verbatim>\<open>constructor\<close>, which every row lacks, is
  omitted.
\<close>

theorem inherited_column_is_omitted:
  "list_all (\<lambda>row. map_of row ''constructor'' = None) flowSheet \<and>
   extractSheetToJson oneSheetDisk ''T2C_dataset_Al.xlsx'' ''flow_all'' (Some inputsOfP1)
     (Some [''flow_name'', ''constructor''])
   = JArr [JObj [(''flow_name'', JStr ''bauxite'')], JObj [(''flow_name'', JNull)]]"
  by code_simp

text \<open>
  C10: \<^verbatim>\<open>extractSheetToJson\<close> returns for every input, either the array of rows or
  the object with an \<^verbatim>\<open>error\<close> text and an empty \<^verbatim>\<open>data\<close> array. It returns the
  latter when the file is missing, when reading it throws, when the sheet is missing, when
  converting the sheet throws, when a filter names a column that no row has and that is
  no name of \<^verbatim>\<open>Object.prototype\<close> (so that \<^verbatim>\<open>column in data[0]\<close> is false), and
  when a projection is asked of an empty sheet. For any filter on a column that no row has
  it returns that object or the empty array. \<^verbatim>\<open>getSheetData\<close> hands the same value
  on, so on every failure its caller finds an empty \<^verbatim>\<open>data\<close> array and no exception.
\<close>

theorem extractSheetToJson_never_throws:
  "(is_error_result (extractSheetToJson fs p s fc cols) \<or>
      (\<exists>rows. extractSheetToJson fs p s fc cols = JArr (map JObj rows))) \<and>
   (\<not> existsSync fs p \<longrightarrow> is_error_result (extractSheetToJson fs p s fc cols)) \<and>
   (\<forall>e. readFile fs p = Inl e \<longrightarrow> is_error_result (extractSheetToJson fs p s fc cols)) \<and>
   (\<forall>wb. readFile fs p = Inr wb \<and> s \<notin> set (SheetNames wb)
      \<longrightarrow> is_error_result (extractSheetToJson fs p s fc cols)) \<and>
   (\<forall>wb e. readFile fs p = Inr wb \<and> sheet_to_json wb s = Inl e
      \<longrightarrow> is_error_result (extractSheetToJson fs p s fc cols)) \<and>
   (\<forall>wb data filters c. readFile fs p = Inr wb \<and> sheet_to_json wb s = Inr data \<and>
        fc = Some filters \<and> c \<in> fst ` set filters \<and> c \<notin> set objectPrototypeNames \<and>
        (\<forall>row \<in> set data. c \<notin> fst ` set row)
      \<longrightarrow> is_error_result (extractSheetToJson fs p s fc cols)) \<and>
   (\<forall>wb data filters c. readFile fs p = Inr wb \<and> sheet_to_json wb s = Inr data \<and>
        fc = Some filters \<and> c \<in> fst ` set filters \<and> (\<forall>row \<in> set data. c \<notin> fst ` set row)
      \<longrightarrow> is_error_result (extractSheetToJson fs p s fc cols) \<or>
          extractSheetToJson fs p s fc cols = JArr []) \<and>
   (\<forall>wb cs. readFile fs p = Inr wb \<and> sheet_to_json wb s = Inr [] \<and> cols = Some cs
      \<longrightarrow> is_error_result (extractSheetToJson fs p s fc cols)) \<and>
   getSheetData fs p s fc cols = extractSheetToJson fs p s fc cols \<and>
   (is_error_result (getSheetData fs p s fc cols)
      \<longrightarrow> json_get (getSheetData fs p s fc cols) ''data'' = Some (JArr []))"
proof (intro conjI allI impI)
  show "is_error_result (extractSheetToJson fs p s fc cols) \<or>
      (\<exists>rows. extractSheetToJson fs p s fc cols = JArr (map JObj rows))"
    by (rule extract_shape)
  show "is_error_result (extractSheetToJson fs p s fc cols)" if "\<not> existsSync fs p"
    using that by (rule extract_failures(1))
  show "is_error_result (extractSheetToJson fs p s fc cols)" if "readFile fs p = Inl e" for e
    using that by (rule extract_failures(2))
  show "is_error_result (extractSheetToJson fs p s fc cols)"
    if "readFile fs p = Inr wb \<and> s \<notin> set (SheetNames wb)" for wb
    using that extract_failures(3) by blast
  show "is_error_result (extractSheetToJson fs p s fc cols)"
    if "readFile fs p = Inr wb \<and> sheet_to_json wb s = Inl e" for wb e
    using that extract_failures(4) by blast
  show "is_error_result (extractSheetToJson fs p s fc cols)"
    if "readFile fs p = Inr wb \<and> sheet_to_json wb s = Inr data \<and>
        fc = Some filters \<and> c \<in> fst ` set filters \<and> c \<notin> set objectPrototypeNames \<and>
        (\<forall>row \<in> set data. c \<notin> fst ` set row)"
    for wb data filters c
    using that extract_missing_filter_column [of fs p wb s data c filters cols] by blast
  show "is_error_result (extractSheetToJson fs p s fc cols) \<or>
          extractSheetToJson fs p s fc cols = JArr []"
    if "readFile fs p = Inr wb \<and> sheet_to_json wb s = Inr data \<and>
        fc = Some filters \<and> c \<in> fst ` set filters \<and> (\<forall>row \<in> set data. c \<notin> fst ` set row)"
    for wb data filters c
    using that extract_absent_filter_column [of fs p wb s data c filters cols] by blast
  show "is_error_result (extractSheetToJson fs p s fc cols)"
    if "readFile fs p = Inr wb \<and> sheet_to_json wb s = Inr [] \<and> cols = Some cs" for wb cs
    using that extract_empty_sheet [of fs p wb s fc cs] by blast
  show "getSheetData fs p s fc cols = extractSheetToJson fs p s fc cols"
    by (simp add: getSheetData_def)
  show "json_get (getSheetData fs p s fc cols) ''data'' = Some (JArr [])"
    if "is_error_result (getSheetData fs p s fc cols)"
    using that by (rule is_error_result_data)
qed

theorem extractSheetToJson_never_throws_witness:
  "\<not> existsSync oneSheetDisk ''missing.xlsx'' \<and>
   is_error_result (extractSheetToJson oneSheetDisk ''missing.xlsx'' ''flow_all'' None None) \<and>
   json_get (getSheetData oneSheetDisk ''missing.xlsx'' ''flow_all'' None None) ''data''
     = Some (JArr []) \<and>
   readFile oneSheetDisk ''T2C_dataset_Al.xlsx'' = Inr flowBook \<and>
   sheet_to_json flowBook ''flow_all'' = Inr flowSheet \<and>
   ''region'' \<in> fst ` set [(''region'', JStr ''CN'')] \<and>
   ''region'' \<notin> set objectPrototypeNames \<and>
   list_all (\<lambda>row. ''region'' \<notin> fst ` set row) flowSheet \<and>
   is_error_result (extractSheetToJson oneSheetDisk ''T2C_dataset_Al.xlsx'' ''flow_all''
     (Some [(''region'', JStr ''CN'')]) None) \<and>
   ''constructor'' \<in> fst ` set [(''constructor'', JStr ''x'')] \<and>
   list_all (\<lambda>row. ''constructor'' \<notin> fst ` set row) flowSheet \<and>
   extractSheetToJson oneSheetDisk ''T2C_dataset_Al.xlsx'' ''flow_all''
     (Some [(''constructor'', JStr ''x'')]) None = JArr []"
proof -
  have missing: "\<not> existsSync oneSheetDisk ''missing.xlsx''"
    by (simp add: oneSheetDisk_def)
  note all = extractSheetToJson_never_throws
               [of oneSheetDisk "''missing.xlsx''" "''flow_all''" None None]
  from all missing
  have err: "is_error_result (extractSheetToJson oneSheetDisk ''missing.xlsx'' ''flow_all'' None None)"
    by blast
  from all
  have same: "getSheetData oneSheetDisk ''missing.xlsx'' ''flow_all'' None None
          = extractSheetToJson oneSheetDisk ''missing.xlsx'' ''flow_all'' None None"
    by blast
  from all err same
  have data: "json_get (getSheetData oneSheetDisk ''missing.xlsx'' ''flow_all'' None None) ''data''
          = Some (JArr [])"
    by metis
  have book: "readFile oneSheetDisk ''T2C_dataset_Al.xlsx'' = Inr flowBook"
    by (simp add: oneSheetDisk_def)
  have sheet: "sheet_to_json flowBook ''flow_all'' = Inr flowSheet"
    by (simp add: flowBook_def)
  have key: "''region'' \<in> fst ` set [(''region'', JStr ''CN'')]"
    by simp
  have own: "''region'' \<notin> set objectPrototypeNames"
    by (simp add: objectPrototypeNames_def)
  have norow: "list_all (\<lambda>row. ''region'' \<notin> fst ` set row) flowSheet"
    by (simp add: flowSheet_def)
  then have norow': "\<forall>row \<in> set flowSheet. ''region'' \<notin> fst ` set row"
    by (simp add: list_all_iff)
  note filtered = extractSheetToJson_never_throws
               [of oneSheetDisk "''T2C_dataset_Al.xlsx''" "''flow_all''"
                   "Some [(''region'', JStr ''CN'')]" None]
  from filtered book sheet key own norow'
  have region: "is_error_result (extractSheetToJson oneSheetDisk ''T2C_dataset_Al.xlsx'' ''flow_all''
     (Some [(''region'', JStr ''CN'')]) None)"
    by blast
  have ckey: "''constructor'' \<in> fst ` set [(''constructor'', JStr ''x'')]"
    by simp
  have cnorow: "list_all (\<lambda>row. ''constructor'' \<notin> fst ` set row) flowSheet"
    by (simp add: flowSheet_def)
  then have cnorow': "\<forall>row \<in> set flowSheet. ''constructor'' \<notin> fst ` set row"
    by (simp add: list_all_iff)
  have noerr: "\<not> is_error_result (extractSheetToJson oneSheetDisk ''T2C_dataset_Al.xlsx''
     ''flow_all'' (Some [(''constructor'', JStr ''x'')]) None)"
    by code_simp
  note inherited = extractSheetToJson_never_throws
               [of oneSheetDisk "''T2C_dataset_Al.xlsx''" "''flow_all''"
                   "Some [(''constructor'', JStr ''x'')]" None]
  from inherited book sheet ckey cnorow' noerr
  have empty: "extractSheetToJson oneSheetDisk ''T2C_dataset_Al.xlsx'' ''flow_all''
     (Some [(''constructor'', JStr ''x'')]) None = JArr []"
    by blast
  from missing err data book sheet key own norow region ckey cnorow empty show ?thesis by blast
qed

section \<open>The final summary\<close>

lemma map_of_map_entry_if:
  "map_of (AList.map_entry k f al) k' =
     (if k' = k then map_option f (map_of al k) else map_of al k')"
  by (simp add: map_of_map_entry split: option.splits)

lemma readArg_Nil [simp]: "readArg [] data name = map_of data name"
  by (simp add: readArg_def split: option.splits)

lemma readProperty_Nil [simp]:
  "readProperty [] e name = (case map_of e name of Some v \<Rightarrow> v | None \<Rightarrow> None)"
  by (simp add: readProperty_def split: option.splits)

lemma map_entry_update_fresh:
  "k \<notin> fst ` set al \<Longrightarrow> AList.map_entry k f (AList.update k v al) = AList.update k (f v) al"
  by (induction al) auto

lemma lookupProcess_plain:
  "objectPrototype h = [] \<Longrightarrow> key \<noteq> ''__proto__'' \<Longrightarrow>
     lookupProcess h key =
       (if key \<in> fst ` set (allProcesses h) then OwnEntry
        else if key \<in> set objectPrototypeNames then AFunction else NoValue)"
  by (simp add: lookupProcess_def)

lemma assignProperty_plain:
  assumes "objectPrototype h = []" "key \<noteq> ''__proto__''"
    "key \<in> fst ` set (allProcesses h) \<or> key \<in> set objectPrototypeNames"
  shows "assignProperty key name v h =
     Inr (if key \<in> fst ` set (allProcesses h)
          then h\<lparr>allProcesses := AList.map_entry key (AList.update name v) (allProcesses h)\<rparr>
          else h)"
  using assms by (auto simp: assignProperty_def lookupProcess_plain)

lemma addTechnical_plain:
  assumes p: "objectPrototype h = []" and k: "summaryKey m \<noteq> Some ''__proto__''"
  shows "addTechnical h m =
     Inr (case first_args m of
            None \<Rightarrow> h
          | Some data \<Rightarrow>
              if truthy_opt (map_of data ''process_UUID'')
              then (let key = property_key (map_of data ''process_UUID'')
                    in if key \<in> fst ` set (allProcesses h)
                       then h\<lparr>allProcesses :=
                                AList.map_entry key
                                  (AList.update ''technical_grade''
                                     (map_of data ''final_technical_representativeness''))
                                  (allProcesses h)\<rparr>
                       else if key \<in> set objectPrototypeNames then h
                       else h\<lparr>allProcesses :=
                                AList.update key
                                  [(''process_UUID'', map_of data ''process_UUID''),
                                   (''process_name'', map_of data ''process_name''),
                                   (''flow_count'', map_of data ''flow_count''),
                                   (''technical_grade'',
                                    map_of data ''final_technical_representativeness'')]
                                  (allProcesses h)\<rparr>)
              else h)"
proof (cases "first_args m")
  case None
  then show ?thesis by (simp add: addTechnical_def)
next
  case (Some data)
  show ?thesis
  proof (cases "truthy_opt (map_of data ''process_UUID'')")
    case False
    with Some p show ?thesis by (simp add: addTechnical_def Let_def)
  next
    case True
    let ?key = "property_key (map_of data ''process_UUID'')"
    from True Some k have key: "?key \<noteq> ''__proto__''"
      by (simp add: summaryKey_def arg_def)
    show ?thesis
    proof (cases "?key \<in> fst ` set (allProcesses h)")
      case own: True
      with Some True p key show ?thesis
        by (simp add: addTechnical_def Let_def lookupProcess_plain present_def assignProperty_plain)
    next
      case notown: False
      show ?thesis
      proof (cases "?key \<in> set objectPrototypeNames")
        case True
        with Some \<open>truthy_opt (map_of data ''process_UUID'')\<close> p key notown show ?thesis
          by (simp add: addTechnical_def Let_def lookupProcess_plain present_def assignProperty_plain)
      next
        case False
        let ?h1 = "createProcess ?key
                     [(''process_UUID'', map_of data ''process_UUID''),
                      (''process_name'', map_of data ''process_name''),
                      (''flow_count'', map_of data ''flow_count'')] h"
        have h1: "objectPrototype ?h1 = []" "?key \<in> fst ` set (allProcesses ?h1)"
          using p by (simp_all add: createProcess_def dom_update)
        have "assignProperty ?key ''technical_grade''
                (map_of data ''final_technical_representativeness'') ?h1
            = Inr (?h1\<lparr>allProcesses :=
                        AList.map_entry ?key
                          (AList.update ''technical_grade''
                             (map_of data ''final_technical_representativeness''))
                          (allProcesses ?h1)\<rparr>)"
          using assignProperty_plain [OF h1(1) key, of "''technical_grade''"] h1(2) by simp
        moreover have "AList.map_entry ?key
                          (AList.update ''technical_grade''
                             (map_of data ''final_technical_representativeness''))
                          (allProcesses ?h1)
            = AList.update ?key
                [(''process_UUID'', map_of data ''process_UUID''),
                 (''process_name'', map_of data ''process_name''),
                 (''flow_count'', map_of data ''flow_count''),
                 (''technical_grade'', map_of data ''final_technical_representativeness'')]
                (allProcesses h)"
          using notown by (simp add: createProcess_def map_entry_update_fresh)
        ultimately show ?thesis
          using Some \<open>truthy_opt (map_of data ''process_UUID'')\<close> p key notown False
          by (simp add: addTechnical_def Let_def lookupProcess_plain present_def createProcess_def)
      qed
    qed
  qed
qed

lemma addTime_plain:
  assumes p: "objectPrototype h = []" and k: "summaryKey m \<noteq> Some ''__proto__''"
  shows "addTime h m =
     Inr (case first_args m of
            None \<Rightarrow> h
          | Some data \<Rightarrow>
              if truthy_opt (map_of data ''process_UUID'')
              then (let key = property_key (map_of data ''process_UUID'')
                    in if key \<in> fst ` set (allProcesses h)
                       then h\<lparr>allProcesses :=
                                AList.map_entry key
                                  (AList.update ''time_grade''
                                     (map_of data ''final_time_representativeness''))
                                  (allProcesses h)\<rparr>
                       else if key \<in> set objectPrototypeNames then h
                       else h\<lparr>allProcesses :=
                                AList.update key
                                  [(''process_UUID'', map_of data ''process_UUID''),
                                   (''process_name'', map_of data ''process_name''),
                                   (''flow_count'', map_of data ''flow_count''),
                                   (''time_grade'',
                                    map_of data ''final_time_representativeness'')]
                                  (allProcesses h)\<rparr>)
              else h)"
proof (cases "first_args m")
  case None
  then show ?thesis by (simp add: addTime_def)
next
  case (Some data)
  show ?thesis
  proof (cases "truthy_opt (map_of data ''process_UUID'')")
    case False
    with Some p show ?thesis by (simp add: addTime_def Let_def)
  next
    case True
    let ?key = "property_key (map_of data ''process_UUID'')"
    from True Some k have key: "?key \<noteq> ''__proto__''"
      by (simp add: summaryKey_def arg_def)
    show ?thesis
    proof (cases "?key \<in> fst ` set (allProcesses h)")
      case own: True
      with Some True p key show ?thesis
        by (simp add: addTime_def Let_def lookupProcess_plain present_def assignProperty_plain)
    next
      case notown: False
      show ?thesis
      proof (cases "?key \<in> set objectPrototypeNames")
        case True
        with Some \<open>truthy_opt (map_of data ''process_UUID'')\<close> p key notown show ?thesis
          by (simp add: addTime_def Let_def lookupProcess_plain present_def assignProperty_plain)
      next
        case False
        let ?h1 = "createProcess ?key
                     [(''process_UUID'', map_of data ''process_UUID''),
                      (''process_name'', map_of data ''process_name''),
                      (''flow_count'', map_of data ''flow_count'')] h"
        have h1: "objectPrototype ?h1 = []" "?key \<in> fst ` set (allProcesses ?h1)"
          using p by (simp_all add: createProcess_def dom_update)
        have "assignProperty ?key ''time_grade''
                (map_of data ''final_time_representativeness'') ?h1
            = Inr (?h1\<lparr>allProcesses :=
                        AList.map_entry ?key
                          (AList.update ''time_grade''
                             (map_of data ''final_time_representativeness''))
                          (allProcesses ?h1)\<rparr>)"
          using assignProperty_plain [OF h1(1) key, of "''time_grade''"] h1(2) by simp
        moreover have "AList.map_entry ?key
                          (AList.update ''time_grade''
                             (map_of data ''final_time_representativeness''))
                          (allProcesses ?h1)
            = AList.update ?key
                [(''process_UUID'', map_of data ''process_UUID''),
                 (''process_name'', map_of data ''process_name''),
                 (''flow_count'', map_of data ''flow_count''),
                 (''time_grade'', map_of data ''final_time_representativeness'')]
                (allProcesses h)"
          using notown by (simp add: createProcess_def map_entry_update_fresh)
        ultimately show ?thesis
          using Some \<open>truthy_opt (map_of data ''process_UUID'')\<close> p key notown False
          by (simp add: addTime_def Let_def lookupProcess_plain present_def createProcess_def)
      qed
    qed
  qed
qed

lemma addSpatial_plain:
  assumes p: "objectPrototype h = []" and k: "summaryKey m \<noteq> Some ''__proto__''"
  shows "addSpatial h m =
     Inr (case first_args m of
            None \<Rightarrow> h
          | Some data \<Rightarrow>
              if truthy_opt (map_of data ''process_UUID'')
              then (let key = property_key (map_of data ''process_UUID'')
                    in if key \<in> fst ` set (allProcesses h)
                       then h\<lparr>allProcesses :=
                                AList.map_entry key
                                  (AList.update ''spatial_grade''
                                     (map_of data ''final_spatial_representativeness''))
                                  (if truthy_opt (map_of data ''location'')
                                   then AList.map_entry key
                                          (AList.update ''location'' (map_of data ''location''))
                                          (allProcesses h)
                                   else allProcesses h)\<rparr>
                       else if key \<in> set objectPrototypeNames then h
                       else h\<lparr>allProcesses :=
                                AList.update key
                                  [(''process_UUID'', map_of data ''process_UUID''),
                                   (''process_name'', map_of data ''process_name''),
                                   (''location'', map_of data ''location''),
                                   (''flow_count'', map_of data ''flow_count''),
                                   (''spatial_grade'',
                                    map_of data ''final_spatial_representativeness'')]
                                  (allProcesses h)\<rparr>)
              else h)"
proof (cases "first_args m")
  case None
  then show ?thesis by (simp add: addSpatial_def)
next
  case (Some data)
  show ?thesis
  proof (cases "truthy_opt (map_of data ''process_UUID'')")
    case False
    with Some p show ?thesis by (simp add: addSpatial_def Let_def)
  next
    case True
    let ?key = "property_key (map_of data ''process_UUID'')"
    from True Some k have key: "?key \<noteq> ''__proto__''"
      by (simp add: summaryKey_def arg_def)
    show ?thesis
    proof (cases "?key \<in> fst ` set (allProcesses h)")
      case own: True
      let ?h1 = "h\<lparr>allProcesses := AList.map_entry ?key
                     (AList.update ''location'' (map_of data ''location'')) (allProcesses h)\<rparr>"
      have h1: "objectPrototype ?h1 = []" "?key \<in> fst ` set (allProcesses ?h1)"
        using p own by (simp_all add: dom_map_entry)
      show ?thesis
      proof (cases "truthy_opt (map_of data ''location'')")
        case loc: True
        have "assignProperty ?key ''spatial_grade''
                (map_of data ''final_spatial_representativeness'') ?h1
            = Inr (?h1\<lparr>allProcesses :=
                        AList.map_entry ?key
                          (AList.update ''spatial_grade''
                             (map_of data ''final_spatial_representativeness''))
                          (allProcesses ?h1)\<rparr>)"
          using assignProperty_plain [OF h1(1) key, of "''spatial_grade''"] h1(2) by simp
        with Some True p key own loc show ?thesis
          by (simp add: addSpatial_def Let_def lookupProcess_plain present_def assignProperty_plain)
      next
        case noloc: False
        with Some True p key own show ?thesis
          by (simp add: addSpatial_def Let_def lookupProcess_plain present_def assignProperty_plain)
      qed
    next
      case notown: False
      show ?thesis
      proof (cases "?key \<in> set objectPrototypeNames")
        case True
        with Some \<open>truthy_opt (map_of data ''process_UUID'')\<close> p key notown show ?thesis
          by (simp add: addSpatial_def Let_def lookupProcess_plain present_def assignProperty_plain)
      next
        case False
        let ?h1 = "createProcess ?key
                     [(''process_UUID'', map_of data ''process_UUID''),
                      (''process_name'', map_of data ''process_name''),
                      (''location'', map_of data ''location''),
                      (''flow_count'', map_of data ''flow_count'')] h"
        have h1: "objectPrototype ?h1 = []" "?key \<in> fst ` set (allProcesses ?h1)"
          using p by (simp_all add: createProcess_def dom_update)
        have "assignProperty ?key ''spatial_grade''
                (map_of data ''final_spatial_representativeness'') ?h1
            = Inr (?h1\<lparr>allProcesses :=
                        AList.map_entry ?key
                          (AList.update ''spatial_grade''
                             (map_of data ''final_spatial_representativeness''))
                          (allProcesses ?h1)\<rparr>)"
          using assignProperty_plain [OF h1(1) key, of "''spatial_grade''"] h1(2) by simp
        moreover have "AList.map_entry ?key
                          (AList.update ''spatial_grade''
                             (map_of data ''final_spatial_representativeness''))
                          (allProcesses ?h1)
            = AList.update ?key
                [(''process_UUID'', map_of data ''process_UUID''),
                 (''process_name'', map_of data ''process_name''),
                 (''location'', map_of data ''location''),
                 (''flow_count'', map_of data ''flow_count''),
                 (''spatial_grade'', map_of data ''final_spatial_representativeness'')]
                (allProcesses h)"
          using notown by (simp add: createProcess_def map_entry_update_fresh)
        ultimately show ?thesis
          using Some \<open>truthy_opt (map_of data ''process_UUID'')\<close> p key notown False
          by (simp add: addSpatial_def Let_def lookupProcess_plain present_def createProcess_def)
      qed
    qed
  qed
qed

lemma entry_traced_mono:
  "entry_traced T S M k e \<Longrightarrow> T \<subseteq> T' \<Longrightarrow> S \<subseteq> S' \<Longrightarrow> M \<subseteq> M' \<Longrightarrow> entry_traced T' S' M' k e"
  unfolding entry_traced_def by blast

lemma traced_map_entry:
  assumes "\<forall>k e. map_of al k = Some e \<longrightarrow> Q k e" "\<And>e. Q key e \<Longrightarrow> Q key (f e)"
  shows "\<forall>k e. map_of (AList.map_entry key f al) k = Some e \<longrightarrow> Q k e"
  using assms by (auto simp: map_of_map_entry_if split: if_splits)

lemma traced_update:
  assumes "\<forall>k e. map_of al k = Some e \<longrightarrow> Q k e" "Q key v"
  shows "\<forall>k e. map_of (AList.update key v al) k = Some e \<longrightarrow> Q k e"
  using assms by (auto simp: update_conv' split: if_splits)

lemma graded_by_key:
  assumes "first_args m = Some data" "truthy_opt (map_of data ''process_UUID'')"
    "map_of data gradeKey = Some g"
  shows "graded_by gradeKey (property_key (map_of data ''process_UUID'')) g m"
  using assms by (simp add: graded_by_def arg_def)

lemma entry_traced_technical:
  assumes "entry_traced T S M k e"
    and "\<And>g. v = Some g \<Longrightarrow> graded_by ''final_technical_representativeness'' k g m"
  shows "entry_traced (insert m T) S M k (AList.update ''technical_grade'' v e)"
  using assms unfolding entry_traced_def by (auto simp: update_conv')

lemma entry_traced_spatial:
  assumes "entry_traced T S M k e"
    and "\<And>g. v = Some g \<Longrightarrow> graded_by ''final_spatial_representativeness'' k g m"
  shows "entry_traced T (insert m S) M k (AList.update ''spatial_grade'' v e)"
  using assms unfolding entry_traced_def by (auto simp: update_conv')

lemma entry_traced_time:
  assumes "entry_traced T S M k e"
    and "\<And>g. v = Some g \<Longrightarrow> graded_by ''final_time_representativeness'' k g m"
  shows "entry_traced T S (insert m M) k (AList.update ''time_grade'' v e)"
  using assms unfolding entry_traced_def by (auto simp: update_conv')

lemma entry_traced_location:
  "entry_traced T S M k e \<Longrightarrow> entry_traced T S M k (AList.update ''location'' v e)"
  unfolding entry_traced_def by (simp add: update_conv')

lemma grades_traced_mono:
  "grades_traced T S M h \<Longrightarrow> T \<subseteq> T' \<Longrightarrow> S \<subseteq> S' \<Longrightarrow> M \<subseteq> M' \<Longrightarrow> grades_traced T' S' M' h"
  unfolding grades_traced_def using entry_traced_mono by blast

lemma grades_traced_addTechnical:
  assumes tr: "grades_traced T S M h" and key: "summaryKey m \<noteq> Some ''__proto__''"
  shows "\<exists>h'. addTechnical h m = Inr h' \<and> grades_traced (insert m T) S M h'"
proof -
  from tr have p: "objectPrototype h = []" by (simp add: grades_traced_def)
  from tr have wider: "grades_traced (insert m T) S M h"
    by (rule grades_traced_mono) auto
  then have all: "\<forall>k e. map_of (allProcesses h) k = Some e \<longrightarrow> entry_traced (insert m T) S M k e"
    by (simp add: grades_traced_def)
  show ?thesis
  proof (cases "first_args m")
    case None
    with wider show ?thesis by (simp add: addTechnical_plain [OF p key])
  next
    case (Some data)
    show ?thesis
    proof (cases "truthy_opt (map_of data ''process_UUID'')")
      case False
      with Some wider show ?thesis by (simp add: addTechnical_plain [OF p key])
    next
      case True
      let ?key = "property_key (map_of data ''process_UUID'')"
      let ?v = "map_of data ''final_technical_representativeness''"
      have by_m: "graded_by ''final_technical_representativeness'' ?key g m" if "?v = Some g" for g
        using Some True that by (rule graded_by_key)
      show ?thesis
      proof (cases "?key \<in> fst ` set (allProcesses h)")
        case own: True
        have "\<forall>k e. map_of (AList.map_entry ?key (AList.update ''technical_grade'' ?v)
                        (allProcesses h)) k = Some e \<longrightarrow> entry_traced (insert m T) S M k e"
        proof (rule traced_map_entry [OF all])
          fix e
          assume "entry_traced (insert m T) S M ?key e"
          from entry_traced_technical [OF this by_m]
          show "entry_traced (insert m T) S M ?key (AList.update ''technical_grade'' ?v e)"
            by simp
        qed
        with Some True own p show ?thesis
          by (simp add: addTechnical_plain [OF p key] Let_def grades_traced_def)
      next
        case notown: False
        show ?thesis
        proof (cases "?key \<in> set objectPrototypeNames")
          case True
          with Some \<open>truthy_opt (map_of data ''process_UUID'')\<close> notown wider show ?thesis
            by (simp add: addTechnical_plain [OF p key] Let_def)
        next
          case False
          have "entry_traced (insert m T) S M ?key
                  [(''process_UUID'', map_of data ''process_UUID''),
                   (''process_name'', map_of data ''process_name''),
                   (''flow_count'', map_of data ''flow_count''),
                   (''technical_grade'', ?v)]"
            using by_m by (auto simp: entry_traced_def)
          from traced_update [where Q = "entry_traced (insert m T) S M", OF all this]
          show ?thesis
            using Some \<open>truthy_opt (map_of data ''process_UUID'')\<close> notown False p
            by (simp add: addTechnical_plain [OF p key] Let_def grades_traced_def)
        qed
      qed
    qed
  qed
qed

lemma grades_traced_addTime:
  assumes tr: "grades_traced T S M h" and key: "summaryKey m \<noteq> Some ''__proto__''"
  shows "\<exists>h'. addTime h m = Inr h' \<and> grades_traced T S (insert m M) h'"
proof -
  from tr have p: "objectPrototype h = []" by (simp add: grades_traced_def)
  from tr have wider: "grades_traced T S (insert m M) h"
    by (rule grades_traced_mono) auto
  then have all: "\<forall>k e. map_of (allProcesses h) k = Some e \<longrightarrow> entry_traced T S (insert m M) k e"
    by (simp add: grades_traced_def)
  show ?thesis
  proof (cases "first_args m")
    case None
    with wider show ?thesis by (simp add: addTime_plain [OF p key])
  next
    case (Some data)
    show ?thesis
    proof (cases "truthy_opt (map_of data ''process_UUID'')")
      case False
      with Some wider show ?thesis by (simp add: addTime_plain [OF p key])
    next
      case True
      let ?key = "property_key (map_of data ''process_UUID'')"
      let ?v = "map_of data ''final_time_representativeness''"
      have by_m: "graded_by ''final_time_representativeness'' ?key g m" if "?v = Some g" for g
        using Some True that by (rule graded_by_key)
      show ?thesis
      proof (cases "?key \<in> fst ` set (allProcesses h)")
        case own: True
        have "\<forall>k e. map_of (AList.map_entry ?key (AList.update ''time_grade'' ?v)
                        (allProcesses h)) k = Some e \<longrightarrow> entry_traced T S (insert m M) k e"
        proof (rule traced_map_entry [OF all])
          fix e
          assume "entry_traced T S (insert m M) ?key e"
          from entry_traced_time [OF this by_m]
          show "entry_traced T S (insert m M) ?key (AList.update ''time_grade'' ?v e)"
            by simp
        qed
        with Some True own p show ?thesis
          by (simp add: addTime_plain [OF p key] Let_def grades_traced_def)
      next
        case notown: False
        show ?thesis
        proof (cases "?key \<in> set objectPrototypeNames")
          case True
          with Some \<open>truthy_opt (map_of data ''process_UUID'')\<close> notown wider show ?thesis
            by (simp add: addTime_plain [OF p key] Let_def)
        next
          case False
          have "entry_traced T S (insert m M) ?key
                  [(''process_UUID'', map_of data ''process_UUID''),
                   (''process_name'', map_of data ''process_name''),
                   (''flow_count'', map_of data ''flow_count''),
                   (''time_grade'', ?v)]"
            using by_m by (auto simp: entry_traced_def)
          from traced_update [where Q = "entry_traced T S (insert m M)", OF all this]
          show ?thesis
            using Some \<open>truthy_opt (map_of data ''process_UUID'')\<close> notown False p
            by (simp add: addTime_plain [OF p key] Let_def grades_traced_def)
        qed
      qed
    qed
  qed
qed

lemma grades_traced_addSpatial:
  assumes tr: "grades_traced T S M h" and key: "summaryKey m \<noteq> Some ''__proto__''"
  shows "\<exists>h'. addSpatial h m = Inr h' \<and> grades_traced T (insert m S) M h'"
proof -
  from tr have p: "objectPrototype h = []" by (simp add: grades_traced_def)
  from tr have wider: "grades_traced T (insert m S) M h"
    by (rule grades_traced_mono) auto
  then have all: "\<forall>k e. map_of (allProcesses h) k = Some e \<longrightarrow> entry_traced T (insert m S) M k e"
    by (simp add: grades_traced_def)
  show ?thesis
  proof (cases "first_args m")
    case None
    with wider show ?thesis by (simp add: addSpatial_plain [OF p key])
  next
    case (Some data)
    show ?thesis
    proof (cases "truthy_opt (map_of data ''process_UUID'')")
      case False
      with Some wider show ?thesis by (simp add: addSpatial_plain [OF p key])
    next
      case True
      let ?key = "property_key (map_of data ''process_UUID'')"
      let ?v = "map_of data ''final_spatial_representativeness''"
      have by_m: "graded_by ''final_spatial_representativeness'' ?key g m" if "?v = Some g" for g
        using Some True that by (rule graded_by_key)
      show ?thesis
      proof (cases "?key \<in> fst ` set (allProcesses h)")
        case own: True
        let ?located = "if truthy_opt (map_of data ''location'')
                        then AList.map_entry ?key
                               (AList.update ''location'' (map_of data ''location''))
                               (allProcesses h)
                        else allProcesses h"
        have located: "\<forall>k e. map_of ?located k = Some e \<longrightarrow> entry_traced T (insert m S) M k e"
        proof (cases "truthy_opt (map_of data ''location'')")
          case True
          have "\<forall>k e. map_of (AList.map_entry ?key
                               (AList.update ''location'' (map_of data ''location''))
                               (allProcesses h)) k = Some e \<longrightarrow> entry_traced T (insert m S) M k e"
            by (rule traced_map_entry [OF all]) (rule entry_traced_location)
          with True show ?thesis by simp
        next
          case False
          with all show ?thesis by simp
        qed
        have "\<forall>k e. map_of (AList.map_entry ?key (AList.update ''spatial_grade'' ?v) ?located) k
                        = Some e \<longrightarrow> entry_traced T (insert m S) M k e"
        proof (rule traced_map_entry [OF located])
          fix e
          assume "entry_traced T (insert m S) M ?key e"
          from entry_traced_spatial [OF this by_m]
          show "entry_traced T (insert m S) M ?key (AList.update ''spatial_grade'' ?v e)"
            by simp
        qed
        with Some True own p show ?thesis
          by (simp add: addSpatial_plain [OF p key] Let_def grades_traced_def)
      next
        case notown: False
        show ?thesis
        proof (cases "?key \<in> set objectPrototypeNames")
          case True
          with Some \<open>truthy_opt (map_of data ''process_UUID'')\<close> notown wider show ?thesis
            by (simp add: addSpatial_plain [OF p key] Let_def)
        next
          case False
          have "entry_traced T (insert m S) M ?key
                  [(''process_UUID'', map_of data ''process_UUID''),
                   (''process_name'', map_of data ''process_name''),
                   (''location'', map_of data ''location''),
                   (''flow_count'', map_of data ''flow_count''),
                   (''spatial_grade'', ?v)]"
            using by_m by (auto simp: entry_traced_def)
          from traced_update [where Q = "entry_traced T (insert m S) M", OF all this]
          show ?thesis
            using Some \<open>truthy_opt (map_of data ''process_UUID'')\<close> notown False p
            by (simp add: addSpatial_plain [OF p key] Let_def grades_traced_def)
        qed
      qed
    qed
  qed
qed

lemma grades_traced_technical_loop:
  "grades_traced T S M h \<Longrightarrow> \<forall>m \<in> set ms. summaryKey m \<noteq> Some ''__proto__'' \<Longrightarrow>
     \<exists>h'. forEach addTechnical h ms = Inr h' \<and> grades_traced (T \<union> set ms) S M h'"
proof (induction ms arbitrary: h T)
  case Nil
  then show ?case by simp
next
  case (Cons m ms)
  from Cons.prems have "summaryKey m \<noteq> Some ''__proto__''" by simp
  from grades_traced_addTechnical [OF Cons.prems(1) this] obtain h1 where
    h1: "addTechnical h m = Inr h1" "grades_traced (insert m T) S M h1" by blast
  from Cons.prems have "\<forall>m \<in> set ms. summaryKey m \<noteq> Some ''__proto__''" by simp
  from Cons.IH [OF h1(2) this] h1(1) show ?case by simp
qed

lemma grades_traced_spatial_loop:
  "grades_traced T S M h \<Longrightarrow> \<forall>m \<in> set ms. summaryKey m \<noteq> Some ''__proto__'' \<Longrightarrow>
     \<exists>h'. forEach addSpatial h ms = Inr h' \<and> grades_traced T (S \<union> set ms) M h'"
proof (induction ms arbitrary: h S)
  case Nil
  then show ?case by simp
next
  case (Cons m ms)
  from Cons.prems have "summaryKey m \<noteq> Some ''__proto__''" by simp
  from grades_traced_addSpatial [OF Cons.prems(1) this] obtain h1 where
    h1: "addSpatial h m = Inr h1" "grades_traced T (insert m S) M h1" by blast
  from Cons.prems have "\<forall>m \<in> set ms. summaryKey m \<noteq> Some ''__proto__''" by simp
  from Cons.IH [OF h1(2) this] h1(1) show ?case by simp
qed

lemma grades_traced_time_loop:
  "grades_traced T S M h \<Longrightarrow> \<forall>m \<in> set ms. summaryKey m \<noteq> Some ''__proto__'' \<Longrightarrow>
     \<exists>h'. forEach addTime h ms = Inr h' \<and> grades_traced T S (M \<union> set ms) h'"
proof (induction ms arbitrary: h M)
  case Nil
  then show ?case by simp
next
  case (Cons m ms)
  from Cons.prems have "summaryKey m \<noteq> Some ''__proto__''" by simp
  from grades_traced_addTime [OF Cons.prems(1) this] obtain h1 where
    h1: "addTime h m = Inr h1" "grades_traced T S (insert m M) h1" by blast
  from Cons.prems have "\<forall>m \<in> set ms. summaryKey m \<noteq> Some ''__proto__''" by simp
  from Cons.IH [OF h1(2) this] h1(1) show ?case by simp
qed

lemma grades_traced_collectGrades:
  assumes "\<forall>m \<in> set (messages st). summaryKey m \<noteq> Some ''__proto__''"
  shows "\<exists>h. collectGrades st = Inr h \<and>
     grades_traced
       (set (filter (has_tool ''technical_summary'') (messages st)))
       (set (filter (has_tool ''spatial_summary'') (messages st)))
       (set (filter (has_tool ''time_summary'') (messages st))) h"
proof -
  let ?ts = "filter (has_tool ''technical_summary'') (messages st)"
  let ?ss = "filter (has_tool ''spatial_summary'') (messages st)"
  let ?ms = "filter (has_tool ''time_summary'') (messages st)"
  have start: "grades_traced {} {} {} \<lparr>allProcesses = [], objectPrototype = []\<rparr>"
    by (simp add: grades_traced_def)
  from assms have keys: "\<forall>m \<in> set ?ts. summaryKey m \<noteq> Some ''__proto__''"
    "\<forall>m \<in> set ?ss. summaryKey m \<noteq> Some ''__proto__''"
    "\<forall>m \<in> set ?ms. summaryKey m \<noteq> Some ''__proto__''" by simp_all
  from grades_traced_technical_loop [OF start keys(1)] obtain h1 where
    h1: "forEach addTechnical \<lparr>allProcesses = [], objectPrototype = []\<rparr> ?ts = Inr h1"
        "grades_traced ({} \<union> set ?ts) {} {} h1" by blast
  from grades_traced_spatial_loop [OF h1(2) keys(2)] obtain h2 where
    h2: "forEach addSpatial h1 ?ss = Inr h2"
        "grades_traced ({} \<union> set ?ts) ({} \<union> set ?ss) {} h2" by blast
  from grades_traced_time_loop [OF h2(2) keys(3)] obtain h3 where
    h3: "forEach addTime h2 ?ms = Inr h3"
        "grades_traced ({} \<union> set ?ts) ({} \<union> set ?ss) ({} \<union> set ?ms) h3" by blast
  from h3(2) have "grades_traced (set ?ts) (set ?ss) (set ?ms) h3"
    by (simp only: Un_empty_left)
  moreover have "collectGrades st = Inr h3"
    unfolding collectGrades_def Let_def by (simp only: h1(1) h2(1) h3(1) sum.case)
  ultimately show ?thesis by blast
qed

lemma summarizeProcess_emits:
  assumes p: "objectPrototype h = []" and m: "m \<in> set (summarizeProcess h k)"
  shows "\<exists>e technical spatial time.
           map_of (allProcesses h) k = Some e \<and>
           map_of e ''technical_grade'' = Some (Some technical) \<and>
           map_of e ''spatial_grade'' = Some (Some spatial) \<and>
           map_of e ''time_grade'' = Some (Some time) \<and>
           truthy technical \<and> truthy spatial \<and> truthy time \<and>
           arg (first_args m) ''process_UUID'' = Some (JStr k) \<and>
           arg (first_args m) ''technical_representativeness'' = Some technical \<and>
           arg (first_args m) ''spatial_representativeness'' = Some spatial \<and>
           arg (first_args m) ''time_representativeness'' = Some time"
proof -
  from m obtain e where e: "map_of (allProcesses h) k = Some e"
    by (cases "map_of (allProcesses h) k") (simp_all add: summarizeProcess_def)
  have own: "readProperty (objectPrototype h) e name = Some g \<Longrightarrow> map_of e name = Some (Some g)"
    for name g
    by (simp add: p split: option.splits)
  from m e obtain technical where t: "readProperty (objectPrototype h) e ''technical_grade'' = Some technical"
    by (cases "readProperty (objectPrototype h) e ''technical_grade''")
       (simp_all add: summarizeProcess_def)
  from m e t obtain spatial where s: "readProperty (objectPrototype h) e ''spatial_grade'' = Some spatial"
    by (cases "readProperty (objectPrototype h) e ''spatial_grade''")
       (simp_all add: summarizeProcess_def)
  from m e t s obtain time where c: "readProperty (objectPrototype h) e ''time_grade'' = Some time"
    by (cases "readProperty (objectPrototype h) e ''time_grade''")
       (simp_all add: summarizeProcess_def)
  from m e t s c have truthy: "truthy technical \<and> truthy spatial \<and> truthy time"
    and is_m: "m = finalSummary k
                 (js_or (readProperty (objectPrototype h) e ''process_name'') (JStr ''Unknown Process''))
                 (js_or (readProperty (objectPrototype h) e ''location'') (JStr ''Unknown Location''))
                 (js_or (readProperty (objectPrototype h) e ''flow_count'') (JStr ''0''))
                 technical spatial time"
    by (simp_all add: summarizeProcess_def split: if_splits)
  have carried:
    "arg (first_args m) ''process_UUID'' = Some (JStr k)"
    "arg (first_args m) ''technical_representativeness'' = Some technical"
    "arg (first_args m) ''spatial_representativeness'' = Some spatial"
    "arg (first_args m) ''time_representativeness'' = Some time"
    by (simp_all add: is_m finalSummary_def first_args_def first_tool_def arg_def)
  from e own [OF t] own [OF s] own [OF c] truthy carried show ?thesis by blast
qed

text \<open>
  When no summary message is filed under \<^verbatim>\<open>__proto__\<close>, the stage returns, and every
  message it emits carries a truthy technical, spatial and time grade, each of them the
  grade that a summary message of that axis in the state gives to this process.
\<close>

lemma final_summary_has_three_grades_for_other_keys:
  assumes "\<forall>m \<in> set (messages st). summaryKey m \<noteq> Some ''__proto__''"
  shows "\<exists>summaries. final_summarizer st = Inr summaries \<and>
     (\<forall>m \<in> set summaries. \<exists>processUUID technical spatial time.
        arg (first_args m) ''process_UUID'' = Some (JStr processUUID) \<and>
        arg (first_args m) ''technical_representativeness'' = Some technical \<and>
        arg (first_args m) ''spatial_representativeness'' = Some spatial \<and>
        arg (first_args m) ''time_representativeness'' = Some time \<and>
        truthy technical \<and> truthy spatial \<and> truthy time \<and>
        (\<exists>t \<in> set (messages st). has_tool ''technical_summary'' t \<and>
           graded_by ''final_technical_representativeness'' processUUID technical t) \<and>
        (\<exists>t \<in> set (messages st). has_tool ''spatial_summary'' t \<and>
           graded_by ''final_spatial_representativeness'' processUUID spatial t) \<and>
        (\<exists>t \<in> set (messages st). has_tool ''time_summary'' t \<and>
           graded_by ''final_time_representativeness'' processUUID time t))"
proof -
  from grades_traced_collectGrades [OF assms] obtain h where
    h: "collectGrades st = Inr h"
    and tr: "grades_traced
       (set (filter (has_tool ''technical_summary'') (messages st)))
       (set (filter (has_tool ''spatial_summary'') (messages st)))
       (set (filter (has_tool ''time_summary'') (messages st))) h"
    by blast
  from tr have p: "objectPrototype h = []" by (simp add: grades_traced_def)
  let ?out = "concat (map (summarizeProcess h) (object_keys (allProcesses h)))"
  have run: "final_summarizer st = Inr ?out"
    by (simp add: final_summarizer_def h)
  have "\<exists>processUUID technical spatial time.
        arg (first_args m) ''process_UUID'' = Some (JStr processUUID) \<and>
        arg (first_args m) ''technical_representativeness'' = Some technical \<and>
        arg (first_args m) ''spatial_representativeness'' = Some spatial \<and>
        arg (first_args m) ''time_representativeness'' = Some time \<and>
        truthy technical \<and> truthy spatial \<and> truthy time \<and>
        (\<exists>t \<in> set (messages st). has_tool ''technical_summary'' t \<and>
           graded_by ''final_technical_representativeness'' processUUID technical t) \<and>
        (\<exists>t \<in> set (messages st). has_tool ''spatial_summary'' t \<and>
           graded_by ''final_spatial_representativeness'' processUUID spatial t) \<and>
        (\<exists>t \<in> set (messages st). has_tool ''time_summary'' t \<and>
           graded_by ''final_time_representativeness'' processUUID time t)"
    if "m \<in> set ?out" for m
  proof -
    from that obtain k where "m \<in> set (summarizeProcess h k)" by auto
    from summarizeProcess_emits [OF p this] obtain e technical spatial time where
      e: "map_of (allProcesses h) k = Some e"
         "map_of e ''technical_grade'' = Some (Some technical)"
         "map_of e ''spatial_grade'' = Some (Some spatial)"
         "map_of e ''time_grade'' = Some (Some time)"
         "truthy technical" "truthy spatial" "truthy time"
         "arg (first_args m) ''process_UUID'' = Some (JStr k)"
         "arg (first_args m) ''technical_representativeness'' = Some technical"
         "arg (first_args m) ''spatial_representativeness'' = Some spatial"
         "arg (first_args m) ''time_representativeness'' = Some time"
      by blast
    from tr e(1) have "entry_traced
       (set (filter (has_tool ''technical_summary'') (messages st)))
       (set (filter (has_tool ''spatial_summary'') (messages st)))
       (set (filter (has_tool ''time_summary'') (messages st))) k e"
      by (simp add: grades_traced_def)
    with e(2-4) have
      "\<exists>t \<in> set (filter (has_tool ''technical_summary'') (messages st)).
          graded_by ''final_technical_representativeness'' k technical t"
      "\<exists>t \<in> set (filter (has_tool ''spatial_summary'') (messages st)).
          graded_by ''final_spatial_representativeness'' k spatial t"
      "\<exists>t \<in> set (filter (has_tool ''time_summary'') (messages st)).
          graded_by ''final_time_representativeness'' k time t"
      unfolding entry_traced_def by blast+
    then have
      "\<exists>t \<in> set (messages st). has_tool ''technical_summary'' t \<and>
          graded_by ''final_technical_representativeness'' k technical t"
      "\<exists>t \<in> set (messages st). has_tool ''spatial_summary'' t \<and>
          graded_by ''final_spatial_representativeness'' k spatial t"
      "\<exists>t \<in> set (messages st). has_tool ''time_summary'' t \<and>
          graded_by ''final_time_representativeness'' k time t"
      by auto
    with e(5-11) show ?thesis by blast
  qed
  with run show ?thesis by blast
qed

lemma final_summary_of_gradedState: "final_summarizer gradedState = Inr [p1Summary]"
  by code_simp

text \<open>
  C8 on the code: a summary filed under \<^verbatim>\<open>__proto__\<close> writes its grade to
  \<^verbatim>\<open>Object.prototype\<close>, where every entry of the table inherits it. In
  \<open>inheritedGrades\<close> the process \<^verbatim>\<open>p2\<close> has a technical summary and no other, and
  the stage still emits a \<^verbatim>\<open>final_summary\<close> for it, with the spatial and the time
  grade, and the location, of the summaries for \<^verbatim>\<open>__proto__\<close>.
\<close>

theorem inherited_grades_are_summarized:
  "filter (\<lambda>m. arg (first_args m) ''process_UUID'' = Some (JStr ''p2'')) (messages inheritedGrades)
     = [toolMessage ''technical_summary''
          [(''process_UUID'', JStr ''p2''), (''process_name'', JStr ''casting''),
           (''flow_count'', JStr ''2''), (''final_technical_representativeness'', JStr ''2'')]] \<and>
   final_summarizer inheritedGrades =
     Inr [toolMessage ''final_summary''
            [(''process_UUID'', JStr ''p2''), (''process_name'', JStr ''casting''),
             (''location'', JStr ''CN''), (''flow_count'', JStr ''2''),
             (''technical_representativeness'', JStr ''2''),
             (''spatial_representativeness'', JStr ''1''),
             (''time_representativeness'', JStr ''1'')]]"
  by code_simp

section \<open>Consensus\<close>

lemma firstOccurrences_snoc:
  "firstOccurrences (ks @ [k]) = (if k \<in> set ks then firstOccurrences ks else firstOccurrences ks @ [k])"
  by (simp add: firstOccurrences_def)

lemma set_firstOccurrences [simp]: "set (firstOccurrences ks) = set ks"
  by (simp add: firstOccurrences_def)

lemma distinct_firstOccurrences [simp]: "distinct (firstOccurrences ks)"
  by (simp add: firstOccurrences_def)

lemma grouped_keys: "grouped t ds \<Longrightarrow> fst ` set t = sampleKey ` set ds"
proof -
  assume "grouped t ds"
  then have "set (map fst t) = set (firstOccurrences (map sampleKey ds))"
    by (simp only: grouped_def)
  then show ?thesis by simp
qed

lemma grouped_lookup:
  "grouped t ds \<Longrightarrow> k \<in> set (map sampleKey ds) \<Longrightarrow>
     map_of t k = Some (filter (\<lambda>d. sampleKey d = k) ds)"
  unfolding grouped_def by blast

lemma addGrade_grouped:
  assumes g: "grouped t ds" and d: "first_args m = Some d"
    and ok: "sampleKey d \<notin> set objectPrototypeNames"
  shows "\<exists>t'. addGrade t m = Inr t' \<and> grouped t' (ds @ [d])"
proof (cases "map_of t (sampleKey d)")
  case None
  then have notin: "sampleKey d \<notin> fst ` set t" by (simp add: map_of_eq_None_iff)
  with grouped_keys [OF g] have fresh: "sampleKey d \<notin> sampleKey ` set ds" by simp
  let ?t' = "AList.update (sampleKey d) [d] t"
  have run: "addGrade t m = Inr ?t'"
    using None d ok by (simp add: addGrade_def sampleKey_def Let_def)
  have keys: "map fst ?t' = firstOccurrences (map sampleKey (ds @ [d]))"
    using g notin fresh by (simp add: update_keys grouped_def firstOccurrences_snoc)
  have "map_of ?t' k = Some (filter (\<lambda>x. sampleKey x = k) (ds @ [d]))"
    if "k \<in> set (map sampleKey (ds @ [d]))" for k
  proof (cases "k = sampleKey d")
    case True
    have "\<forall>x \<in> set ds. sampleKey x \<noteq> k"
      using fresh True by (metis imageI)
    then have "filter (\<lambda>x. sampleKey x = k) ds = []"
      by (simp add: filter_empty_conv)
    with True show ?thesis by (simp add: update_conv')
  next
    case False
    with that have "k \<in> set (map sampleKey ds)" by auto
    with g have "map_of t k = Some (filter (\<lambda>x. sampleKey x = k) ds)"
      by (rule grouped_lookup)
    with False show ?thesis by (simp add: update_conv')
  qed
  with keys have "grouped ?t' (ds @ [d])" unfolding grouped_def by blast
  with run show ?thesis by blast
next
  case (Some collected)
  then have isin: "sampleKey d \<in> fst ` set t"
    by (metis domI dom_map_of_conv_image_fst)
  with grouped_keys [OF g] have old: "sampleKey d \<in> set (map sampleKey ds)" by simp
  with g have "map_of t (sampleKey d) = Some (filter (\<lambda>x. sampleKey x = sampleKey d) ds)"
    by (rule grouped_lookup)
  with Some have collected: "collected = filter (\<lambda>x. sampleKey x = sampleKey d) ds"
    by simp
  let ?t' = "AList.update (sampleKey d) (collected @ [d]) t"
  have run: "addGrade t m = Inr ?t'"
    using Some d by (simp add: addGrade_def sampleKey_def Let_def)
  have keys: "map fst ?t' = firstOccurrences (map sampleKey (ds @ [d]))"
    using g isin old by (simp add: update_keys grouped_def firstOccurrences_snoc)
  have "map_of ?t' k = Some (filter (\<lambda>x. sampleKey x = k) (ds @ [d]))"
    if "k \<in> set (map sampleKey (ds @ [d]))" for k
  proof (cases "k = sampleKey d")
    case True
    with collected show ?thesis by (simp add: update_conv')
  next
    case False
    with that have "k \<in> set (map sampleKey ds)" by auto
    with g have "map_of t k = Some (filter (\<lambda>x. sampleKey x = k) ds)"
      by (rule grouped_lookup)
    with False show ?thesis by (simp add: update_conv')
  qed
  with keys have "grouped ?t' (ds @ [d])" unfolding grouped_def by blast
  with run show ?thesis by blast
qed

lemma groupGrades_grouped:
  "grouped t ds \<Longrightarrow>
   \<forall>d \<in> set (List.map_filter first_args ms). sampleKey d \<notin> set objectPrototypeNames \<Longrightarrow>
   \<exists>t'. groupGrades t ms = Inr t' \<and> grouped t' (ds @ List.map_filter first_args ms)"
proof (induction ms arbitrary: t ds)
  case Nil
  then show ?case by (simp add: map_filter_simps)
next
  case (Cons m ms)
  show ?case
  proof (cases "first_args m")
    case None
    then have "addGrade t m = Inr t" by (simp add: addGrade_def)
    moreover from None have "List.map_filter first_args (m # ms) = List.map_filter first_args ms"
      by (simp add: map_filter_simps)
    ultimately show ?thesis using Cons.IH [OF Cons.prems(1)] Cons.prems(2) by simp
  next
    case (Some d)
    then have split: "List.map_filter first_args (m # ms) = d # List.map_filter first_args ms"
      by (simp add: map_filter_simps)
    with Cons.prems(2) have ok: "sampleKey d \<notin> set objectPrototypeNames"
      and rest: "\<forall>d \<in> set (List.map_filter first_args ms). sampleKey d \<notin> set objectPrototypeNames"
      by simp_all
    from addGrade_grouped [OF Cons.prems(1) Some ok] obtain t1 where
      t1: "addGrade t m = Inr t1" "grouped t1 (ds @ [d])" by blast
    from Cons.IH [OF t1(2) rest] obtain t' where
      "groupGrades t1 ms = Inr t'" "grouped t' ((ds @ [d]) @ List.map_filter first_args ms)"
      by blast
    with t1(1) split show ?thesis by simp
  qed
qed

lemma grouped_Nil: "grouped [] []"
  by (simp add: grouped_def firstOccurrences_def)

lemma concat_map_singletons:
  "(\<And>k. k \<in> set ks \<Longrightarrow> f k = [g k]) \<Longrightarrow> concat (map f ks) = map g ks"
  by (induction ks) simp_all

lemma summaryRequests_grouped:
  assumes "grouped t ds"
  shows "summaryRequests t =
     map (\<lambda>k. \<lparr>process_uuid = k,
                process_name =
                  js_or (map_of (hd (filter (\<lambda>d. sampleKey d = k) ds)) ''process_name'')
                    (JStr ''Unknown Process''),
                grades = filter (\<lambda>d. sampleKey d = k) ds\<rparr>)
       (object_keys t)"
  unfolding summaryRequests_def
proof (rule concat_map_singletons)
  fix k
  assume "k \<in> set (object_keys t)"
  then have "k \<in> fst ` set t" by (simp add: set_object_keys)
  with grouped_keys [OF assms] have k: "k \<in> set (map sampleKey ds)" by simp
  with assms have look: "map_of t k = Some (filter (\<lambda>d. sampleKey d = k) ds)"
    by (rule grouped_lookup)
  from k obtain d where "d \<in> set ds" "sampleKey d = k" by auto
  then have "filter (\<lambda>d. sampleKey d = k) ds \<noteq> []"
    by (auto simp: filter_empty_conv)
  then obtain first others where "filter (\<lambda>d. sampleKey d = k) ds = first # others"
    by (cases "filter (\<lambda>d. sampleKey d = k) ds") auto
  with look show "(case map_of t k of
          None \<Rightarrow> []
        | Some [] \<Rightarrow> []
        | Some (first # others) \<Rightarrow>
            [\<lparr>process_uuid = k,
              process_name = js_or (map_of first ''process_name'') (JStr ''Unknown Process''),
              grades = first # others\<rparr>])
      = [\<lparr>process_uuid = k,
                process_name =
                  js_or (map_of (hd (filter (\<lambda>d. sampleKey d = k) ds)) ''process_name'')
                    (JStr ''Unknown Process''),
                grades = filter (\<lambda>d. sampleKey d = k) ds\<rparr>]"
    by simp
qed

lemma object_keys_grouped:
  assumes "grouped t ds"
  shows "object_keys t = keyOrder (firstOccurrences (map sampleKey ds))"
proof -
  from assms have "map fst t = firstOccurrences (map sampleKey ds)"
    unfolding grouped_def by blast
  then show ?thesis by (simp add: keyOrder_def object_keys_def comp_def)
qed

lemma technicalRequests_grouped:
  assumes "\<forall>d \<in> set (technicalSamples st). sampleKey d \<notin> set objectPrototypeNames"
  shows "\<exists>requests. technicalRequests st = Inr requests \<and>
     map process_uuid requests = keyOrder (firstOccurrences (map sampleKey (technicalSamples st))) \<and>
     (\<forall>r \<in> set requests.
        grades r = filter (\<lambda>d. sampleKey d = process_uuid r) (technicalSamples st) \<and>
        grades r \<noteq> [] \<and>
        process_name r = js_or (map_of (hd (grades r)) ''process_name'') (JStr ''Unknown Process''))"
proof -
  let ?ms = "filter (first_tool_is ''technical_grader'') (messages st)"
  from groupGrades_grouped [OF grouped_Nil, of ?ms] assms obtain t where
    t: "groupGrades [] ?ms = Inr t" "grouped t (technicalSamples st)"
    by (auto simp: technicalSamples_def)
  let ?ds = "technicalSamples st"
  let ?request = "\<lambda>k. \<lparr>process_uuid = k,
                process_name =
                  js_or (map_of (hd (filter (\<lambda>d. sampleKey d = k) ?ds)) ''process_name'')
                    (JStr ''Unknown Process''),
                grades = filter (\<lambda>d. sampleKey d = k) ?ds\<rparr>"
  have requests: "technicalRequests st = Inr (map ?request (object_keys t))"
    using t(1) summaryRequests_grouped [OF t(2)] by (simp add: technicalRequests_def)
  have keys: "map process_uuid (map ?request (object_keys t))
      = keyOrder (firstOccurrences (map sampleKey ?ds))"
    using object_keys_grouped [OF t(2)] by (simp add: comp_def)
  have each: "grades r = filter (\<lambda>d. sampleKey d = process_uuid r) ?ds \<and>
        grades r \<noteq> [] \<and>
        process_name r = js_or (map_of (hd (grades r)) ''process_name'') (JStr ''Unknown Process'')"
    if "r \<in> set (map ?request (object_keys t))" for r
  proof -
    from that obtain k where k: "k \<in> set (object_keys t)" "r = ?request k" by auto
    then have "k \<in> fst ` set t" by (simp add: set_object_keys)
    with grouped_keys [OF t(2)] obtain d where "d \<in> set ?ds" "sampleKey d = k" by auto
    then have "filter (\<lambda>d. sampleKey d = k) ?ds \<noteq> []"
      by (auto simp: filter_empty_conv)
    with k(2) show ?thesis by simp
  qed
  from requests keys each show ?thesis by blast
qed

lemma first_tool_is_args: "first_tool_is n m \<Longrightarrow> \<exists>d. first_args m = Some d"
  by (auto simp: first_tool_is_def first_args_def split: option.splits)

lemma map_filter_all:
  "\<forall>x \<in> set xs. \<exists>y. f x = Some y \<Longrightarrow>
   length (List.map_filter f xs) = length xs \<and>
   (\<forall>i < length xs. f (xs ! i) = Some (List.map_filter f xs ! i))"
proof (induction xs)
  case Nil
  then show ?case by (simp add: map_filter_simps)
next
  case (Cons x xs)
  then obtain y where y: "f x = Some y" by auto
  from Cons have IH: "length (List.map_filter f xs) = length xs"
    "\<forall>i < length xs. f (xs ! i) = Some (List.map_filter f xs ! i)" by auto
  have "f ((x # xs) ! i) = Some (List.map_filter f (x # xs) ! i)" if "i < length (x # xs)" for i
    using that y IH(2) by (cases i) (auto simp: map_filter_simps)
  with y IH(1) show ?case by (simp add: map_filter_simps)
qed

lemma gradeOutput_sample:
  "gradeOutput (filter (first_tool_is ''technical_grader'') (messages st)) i
     = sampleOr (technicalSamples st) i"
proof -
  let ?ms = "filter (first_tool_is ''technical_grader'') (messages st)"
  have "\<forall>m \<in> set ?ms. \<exists>d. first_args m = Some d"
    by (auto dest: first_tool_is_args)
  from map_filter_all [OF this] have
    len: "length (technicalSamples st) = length ?ms"
    and nth: "\<forall>i < length ?ms. first_args (?ms ! i) = Some (technicalSamples st ! i)"
    unfolding technicalSamples_def by blast+
  show ?thesis
  proof (cases "i < length ?ms")
    case True
    with nth have "first_args (?ms ! i) = Some (technicalSamples st ! i)" by blast
    with True len show ?thesis by (simp add: gradeOutput_def sampleOr_def)
  next
    case False
    with len show ?thesis by (simp add: gradeOutput_def sampleOr_def)
  qed
qed

lemma queue_request:
  "summarize_technical_grades_queue chainQ st =
     (case chainQ (sampleOr (technicalSamples st) 0, sampleOr (technicalSamples st) 1,
                   sampleOr (technicalSamples st) 2) of
        Inl e \<Rightarrow> Inl e
      | Inr response \<Rightarrow> Inr [response])"
  unfolding summarize_technical_grades_queue_def Let_def
  by (simp only: gradeOutput_sample)

lemma map_cong_requests:
  "\<forall>request \<in> set rs. chain1 request = chain2 request \<Longrightarrow>
   map (\<lambda>request. case chain1 request of Inl e \<Rightarrow> [] | Inr response \<Rightarrow> [response]) rs
   = map (\<lambda>request. case chain2 request of Inl e \<Rightarrow> [] | Inr response \<Rightarrow> [response]) rs"
  by (induction rs) auto

text \<open>
  C7, as stated, fails: the final grade is the reply of the chat model, and for the same
  two samples one reply may say 1 and another 3. The stage passes either on, in both
  versions of the workflow.
\<close>

theorem same_samples_different_grades:
  "summarize_technical_grades answersOne splitSamples = Inr [technicalSummaryOf ''1''] \<and>
   summarize_technical_grades answersThree splitSamples = Inr [technicalSummaryOf ''3''] \<and>
   technicalSummaryOf ''1'' \<noteq> technicalSummaryOf ''3'' \<and>
   summarize_technical_grades_queue answersOneQueue splitSamples = Inr [technicalSummaryOf ''1''] \<and>
   summarize_technical_grades_queue answersThreeQueue splitSamples = Inr [technicalSummaryOf ''3'']"
  by code_simp

text \<open>
  A sample whose \<^verbatim>\<open>process_UUID\<close> is a name of \<^verbatim>\<open>Object.prototype\<close> makes the
  stage of src/lcaKeyAgent.ts throw before any request is made.
\<close>

lemma inherited_process_UUID_throws:
  "summarize_technical_grades answersOne (stateWith [technicalGrade ''constructor'' ''1''])
     = Inl (Error ''TypeError'')"
  by code_simp

text \<open>
  C7, amended: the stage computes no grade of its own; its result is a function of the
  samples and of the replies of the chat model. In src/lcaKeyAgent.ts, when no sample is
  keyed by a name of \<^verbatim>\<open>Object.prototype\<close>, it makes one request for every
  \<^verbatim>\<open>process_UUID\<close> among the samples, in the order of \<^verbatim>\<open>Object.keys\<close>, each
  with all samples of that process in message order and the name in the first of them, and
  returns the replies in that order, without those requests whose call threw; so two
  invocations on the same samples return the same whenever the chat model replies alike to
  these requests. In unnamed/part\_002 it makes one request with the first three samples,
  returns the reply, and throws exactly when the chat model throws.
\<close>

theorem consensus_is_the_oracle_reply:
  "(list_all (\<lambda>d. sampleKey d \<notin> set objectPrototypeNames) (technicalSamples st) \<longrightarrow>
      (\<exists>requests.
         technicalRequests st = Inr requests \<and>
         map process_uuid requests
           = keyOrder (firstOccurrences (map sampleKey (technicalSamples st))) \<and>
         (\<forall>r \<in> set requests.
            grades r = filter (\<lambda>d. sampleKey d = process_uuid r) (technicalSamples st) \<and>
            grades r \<noteq> [] \<and>
            process_name r
              = js_or (map_of (hd (grades r)) ''process_name'') (JStr ''Unknown Process'')) \<and>
         summarize_technical_grades chain st
           = Inr (concat (map (\<lambda>r. case chain r of Inl e \<Rightarrow> [] | Inr response \<Rightarrow> [response])
                    requests)) \<and>
         (\<forall>chain'. (\<forall>r \<in> set requests. chain' r = chain r) \<longrightarrow>
            summarize_technical_grades chain' st = summarize_technical_grades chain st))) \<and>
   (\<forall>e. (summarize_technical_grades_queue chainQ st = Inl e) =
      (chainQ (sampleOr (technicalSamples st) 0, sampleOr (technicalSamples st) 1,
               sampleOr (technicalSamples st) 2) = Inl e)) \<and>
   (\<forall>response.
      chainQ (sampleOr (technicalSamples st) 0, sampleOr (technicalSamples st) 1,
              sampleOr (technicalSamples st) 2) = Inr response \<longrightarrow>
      summarize_technical_grades_queue chainQ st = Inr [response])"
proof (intro conjI impI allI)
  assume "list_all (\<lambda>d. sampleKey d \<notin> set objectPrototypeNames) (technicalSamples st)"
  then have "\<forall>d \<in> set (technicalSamples st). sampleKey d \<notin> set objectPrototypeNames"
    by (simp add: list_all_iff)
  from technicalRequests_grouped [OF this] obtain requests where
    r: "technicalRequests st = Inr requests"
       "map process_uuid requests
           = keyOrder (firstOccurrences (map sampleKey (technicalSamples st)))"
       "\<forall>r \<in> set requests.
            grades r = filter (\<lambda>d. sampleKey d = process_uuid r) (technicalSamples st) \<and>
            grades r \<noteq> [] \<and>
            process_name r
              = js_or (map_of (hd (grades r)) ''process_name'') (JStr ''Unknown Process'')"
    by blast
  have out: "summarize_technical_grades c st
           = Inr (concat (map (\<lambda>r. case c r of Inl e \<Rightarrow> [] | Inr response \<Rightarrow> [response])
                    requests))" for c
    by (simp add: summarize_technical_grades_def r(1))
  have "summarize_technical_grades chain' st = summarize_technical_grades chain st"
    if "\<forall>r \<in> set requests. chain' r = chain r" for chain'
    using map_cong_requests [OF that] by (simp only: out)
  with r out [of chain] show "\<exists>requests.
         technicalRequests st = Inr requests \<and>
         map process_uuid requests
           = keyOrder (firstOccurrences (map sampleKey (technicalSamples st))) \<and>
         (\<forall>r \<in> set requests.
            grades r = filter (\<lambda>d. sampleKey d = process_uuid r) (technicalSamples st) \<and>
            grades r \<noteq> [] \<and>
            process_name r
              = js_or (map_of (hd (grades r)) ''process_name'') (JStr ''Unknown Process'')) \<and>
         summarize_technical_grades chain st
           = Inr (concat (map (\<lambda>r. case chain r of Inl e \<Rightarrow> [] | Inr response \<Rightarrow> [response])
                    requests)) \<and>
         (\<forall>chain'. (\<forall>r \<in> set requests. chain' r = chain r) \<longrightarrow>
            summarize_technical_grades chain' st = summarize_technical_grades chain st)"
    by blast
next
  fix e
  show "(summarize_technical_grades_queue chainQ st = Inl e) =
      (chainQ (sampleOr (technicalSamples st) 0, sampleOr (technicalSamples st) 1,
               sampleOr (technicalSamples st) 2) = Inl e)"
    by (simp add: queue_request split: sum.splits)
next
  fix response
  assume "chainQ (sampleOr (technicalSamples st) 0, sampleOr (technicalSamples st) 1,
              sampleOr (technicalSamples st) 2) = Inr response"
  then show "summarize_technical_grades_queue chainQ st = Inr [response]"
    by (simp add: queue_request)
qed

theorem consensus_is_the_oracle_reply_witness:
  "list_all (\<lambda>d. sampleKey d \<notin> set objectPrototypeNames) (technicalSamples splitSamples) \<and>
   technicalRequests splitSamples =
     Inr [\<lparr>process_uuid = ''p1'', process_name = JStr ''smelting'',
           grades = technicalSamples splitSamples\<rparr>] \<and>
   summarize_technical_grades answersOne splitSamples = Inr [technicalSummaryOf ''1''] \<and>
   summarize_technical_grades answersOneForP1 splitSamples
     = summarize_technical_grades answersOne splitSamples \<and>
   answersOneQueue (sampleOr (technicalSamples splitSamples) 0,
                    sampleOr (technicalSamples splitSamples) 1,
                    sampleOr (technicalSamples splitSamples) 2) = Inr (technicalSummaryOf ''1'') \<and>
   summarize_technical_grades_queue answersOneQueue splitSamples = Inr [technicalSummaryOf ''1'']"
proof -
  have ok: "list_all (\<lambda>d. sampleKey d \<notin> set objectPrototypeNames) (technicalSamples splitSamples)"
    by code_simp
  have reqs: "technicalRequests splitSamples =
     Inr [\<lparr>process_uuid = ''p1'', process_name = JStr ''smelting'',
           grades = technicalSamples splitSamples\<rparr>]"
    by code_simp
  have reply: "answersOneQueue (sampleOr (technicalSamples splitSamples) 0,
                    sampleOr (technicalSamples splitSamples) 1,
                    sampleOr (technicalSamples splitSamples) 2) = Inr (technicalSummaryOf ''1'')"
    by (simp add: answersOneQueue_def)
  note inst = consensus_is_the_oracle_reply [of splitSamples answersOne answersOneQueue]
  from inst ok obtain requests where
    r: "technicalRequests splitSamples = Inr requests"
       "summarize_technical_grades answersOne splitSamples
           = Inr (concat (map (\<lambda>r. case answersOne r of Inl e \<Rightarrow> [] | Inr response \<Rightarrow> [response])
                    requests))"
       "\<forall>chain'. (\<forall>r \<in> set requests. chain' r = answersOne r) \<longrightarrow>
            summarize_technical_grades chain' splitSamples
              = summarize_technical_grades answersOne splitSamples"
    by blast
  from r(1) reqs have requests: "requests =
     [\<lparr>process_uuid = ''p1'', process_name = JStr ''smelting'',
           grades = technicalSamples splitSamples\<rparr>]"
    by simp
  from r(2) have one: "summarize_technical_grades answersOne splitSamples
      = Inr [technicalSummaryOf ''1'']"
    by (simp add: requests answersOne_def)
  have "\<forall>r \<in> set requests. answersOneForP1 r = answersOne r"
    by (simp add: requests answersOneForP1_def answersOne_def)
  with r(3) have same: "summarize_technical_grades answersOneForP1 splitSamples
     = summarize_technical_grades answersOne splitSamples"
    by blast
  from inst reply have queue:
    "summarize_technical_grades_queue answersOneQueue splitSamples = Inr [technicalSummaryOf ''1'']"
    by blast
  from ok reqs one same reply queue show ?thesis by blast
qed

section \<open>Selection\<close>

text \<open>
  C5, as stated, fails: the selection is the reply of the chat model, which the stage
  does not check. With no candidate at all a reply is still returned as the selection,
  and with two candidates a reply naming the worse one is returned as well.
\<close>

theorem selection_is_unchecked:
  "candidates (stateWith []) = [] \<and>
   process_selector oneSheetDisk ''T2C_dataset_Al.xlsx'' inventsP9 (stateWith []) =
     Inr \<lparr>selected_messages =
            [toolMessage ''process_selector''
               [(''process_UUID'', JStr ''p9''), (''process_name'', JStr ''rolling''),
                (''location'', JStr ''GLO''), (''flow_count'', JStr ''1'')]],
          selected_flow = JArr []\<rparr> \<and>
   map (\<lambda>c. map_of c ''technical_representativeness'') (candidates twoCandidates)
     = [Some (JStr ''2''), Some (JStr ''1'')] \<and>
   map_option (\<lambda>s. map (\<lambda>m. arg (first_args m) ''technical_representativeness'')
                      (selected_messages s))
     (case process_selector oneSheetDisk ''T2C_dataset_Al.xlsx'' picksFirst twoCandidates of
        Inl e \<Rightarrow> None | Inr s \<Rightarrow> Some s)
     = Some [Some (JStr ''2'')] \<and>
   map_option selected_messages
     (case process_selector_queue oneSheetDisk ''T2C_dataset_Al.xlsx'' inventsP9Queue (stateWith []) of
        Inl e \<Rightarrow> None | Inr s \<Rightarrow> Some s)
     = Some [toolMessage ''process_selector''
               [(''process_UUID'', JStr ''p9''), (''process_name'', JStr ''rolling''),
                (''location'', JStr ''GLO''), (''flow_count'', JStr ''1'')]]"
  by code_simp

text \<open>
  C5, amended: the stage sends every candidate to the chat model and returns the reply
  as the selection, one message whenever the chat model replies, whether or not there is a
  candidate; it throws exactly when the chat model throws. The flows are read for the
  \<^verbatim>\<open>process_UUID\<close> of the reply, or for the empty string.
\<close>

theorem selection_is_the_oracle_reply:
  "process_info (selectorRequest st) = candidates st \<and>
   (\<forall>e. (process_selector fs file_path chain st = Inl e) = (chain (selectorRequest st) = Inl e)) \<and>
   (\<forall>response. chain (selectorRequest st) = Inr response \<longrightarrow>
      process_selector fs file_path chain st =
        Inr \<lparr>selected_messages = [response],
             selected_flow =
               getSelectedFlow fs file_path
                 (js_or (arg (first_args response) ''process_UUID'') (JStr [])) st\<rparr>) \<and>
   (\<forall>response. chainQ (firstArgsOr (find (has_tool ''final_summary'') (messages st)),
                      firstArgsOr (find (has_tool ''heterogeneity_evaluator'') (messages st)))
        = Inr response \<longrightarrow>
      map_option selected_messages
        (case process_selector_queue fs file_path chainQ st of Inl e \<Rightarrow> None | Inr s \<Rightarrow> Some s)
        = Some [response])"
  by (auto simp: process_selector_def process_selector_queue_def selectorRequest_def Let_def
           split: sum.splits)

theorem selection_is_the_oracle_reply_witness:
  "picksFirst (selectorRequest twoCandidates) =
     Inr (toolMessage ''process_selector''
            [(''process_UUID'', JStr ''p2''), (''technical_representativeness'', JStr ''2''),
             (''spatial_representativeness'', JStr ''1''), (''time_representativeness'', JStr ''1'')]) \<and>
   process_selector oneSheetDisk ''T2C_dataset_Al.xlsx'' picksFirst twoCandidates =
     Inr \<lparr>selected_messages =
            [toolMessage ''process_selector''
               [(''process_UUID'', JStr ''p2''), (''technical_representativeness'', JStr ''2''),
                (''spatial_representativeness'', JStr ''1''), (''time_representativeness'', JStr ''1'')]],
          selected_flow =
            getSelectedFlow oneSheetDisk ''T2C_dataset_Al.xlsx''
              (js_or (arg (first_args (toolMessage ''process_selector''
                [(''process_UUID'', JStr ''p2''), (''technical_representativeness'', JStr ''2''),
                 (''spatial_representativeness'', JStr ''1''), (''time_representativeness'', JStr ''1'')]))
                 ''process_UUID'') (JStr [])) twoCandidates\<rparr>"
proof -
  have reply: "picksFirst (selectorRequest twoCandidates) =
     Inr (toolMessage ''process_selector''
            [(''process_UUID'', JStr ''p2''), (''technical_representativeness'', JStr ''2''),
             (''spatial_representativeness'', JStr ''1''), (''time_representativeness'', JStr ''1'')])"
    by code_simp
  with selection_is_the_oracle_reply
         [of twoCandidates oneSheetDisk "''T2C_dataset_Al.xlsx''" picksFirst]
  show ?thesis by blast
qed

end
